theory Spec2Isabelle
  imports Complex_Main "HOL-Library.Product_Lexorder" "HOL-Library.Multiset"
begin

section \<open>Data model of \<open>services/document_processor.py\<close>\<close>

text \<open>
  Python floats are modelled by the rationals: every finite float is a rational, and the
  operations the module applies to floats (\<open>min\<close>, \<open>max\<close>, \<open>int\<close>, \<open>float\<close>) are exact
  on finite values. NaN and the infinities are outside the model. Strings are lists of
  8-bit characters read as the code points below 256.
\<close>

type_synonym pyfloat = rat

datatype error =
    RuntimeError string
  | ValueError string
  | LibraryError string  \<comment> \<open>any exception raised inside fitz, PaddleOCR or EasyOCR\<close>

text \<open>The list \<open>[x0, y0, x1, y1]\<close> of a block, always built with four entries.\<close>

type_synonym bbox = "int \<times> int \<times> int \<times> int"

record block =
  block_id :: string
  role :: string
  bbox :: bbox
  block_text :: string
  confidence :: pyfloat

record page_out =
  page :: nat
  width :: int
  height :: int
  blocks :: "block list"

record document =
  document_id :: string
  filename :: string
  num_pages :: nat
  pages :: "page_out list"

text \<open>
  The pixel buffer handed to an engine. Colour conversion (\<open>cv2.cvtColor\<close>) is part of the
  buffer: the engines below are functions of the converted image.
\<close>

record image =
  shape_h :: int
  shape_w :: int
  samples :: "nat list"

text \<open>
  An element of \<open>page.get_text("blocks")\<close>: a tuple with fewer than five fields, or one
  whose first five fields are \<open>x0, y0, x1, y1, text\<close>.
\<close>

datatype raw_block = Short | Blk pyfloat pyfloat pyfloat pyfloat string

record pdf_page =
  rect_width :: pyfloat
  rect_height :: pyfloat
  get_text_blocks :: "raw_block list"
  get_pixmap :: "error + image"  \<comment> \<open>\<open>page.get_pixmap(dpi=300)\<close> as an array, or the exception\<close>

text \<open>
  One detection of an engine: the polygon's vertices, the text and the score. PaddleOCR
  nests it as \<open>(points, (text, conf))\<close>, EasyOCR as \<open>(points, text, conf)\<close>.
\<close>

type_synonym detection = "(pyfloat \<times> pyfloat) list \<times> string \<times> pyfloat"

text \<open>
  What \<open>paddle.ocr(img, cls=True)\<close> returns: \<open>None\<close>, or a list with one entry per image,
  each \<open>None\<close> or a list of detections.
\<close>

type_synonym paddle_result = "detection list option list option"

text \<open>
  The module's surroundings: the import flags, the files, and the two engines. An engine
  instance is identified by the language it was constructed with. \<open>new_PaddleOCR l\<close> is
  the exception that \<open>PaddleOCR(use_angle_cls=True, lang=l, show_log=False)\<close> raises, and
  \<open>new_Reader l\<close> the one that \<open>easyocr.Reader([l], gpu=True)\<close> raises, \<open>None\<close> when the
  constructor returns an instance.
\<close>

record env =
  PYMUPDF_AVAILABLE :: bool
  PADDLE_AVAILABLE :: bool
  EASYOCR_AVAILABLE :: bool
  fitz_open :: "string \<Rightarrow> error + pdf_page list"
  imread :: "string \<Rightarrow> image option"
  new_PaddleOCR :: "string \<Rightarrow> error option"
  new_Reader :: "string \<Rightarrow> error option"
  ocr :: "string \<Rightarrow> image \<Rightarrow> error + paddle_result"
  readtext :: "string \<Rightarrow> image \<Rightarrow> error + detection list"

datatype event = GetPixmap | PaddleOcr string | EasyReadtext string

text \<open>
  The module's globals \<open>_paddle_ocr\<close> and \<open>_easy_ocr\<close> (\<open>None\<close>, or the instance, named by
  its language), and the calls made so far to the page renderer and to the engines.
\<close>

record state =
  paddle_ocr :: "string option"
  easy_ocr :: "string option"
  trace :: "event list"

section \<open>Python library functions\<close>

text \<open>\<open>int(x)\<close> on a float truncates towards zero.\<close>

definition py_int :: "pyfloat \<Rightarrow> int" where
  "py_int r = (if r < 0 then \<lceil>r\<rceil> else \<lfloor>r\<rfloor>)"

fun py_min :: "pyfloat list \<Rightarrow> error + pyfloat" where
  "py_min [] = Inl (ValueError ''min() arg is an empty sequence'')"
| "py_min (x # xs) = Inr (fold min xs x)"

fun py_max :: "pyfloat list \<Rightarrow> error + pyfloat" where
  "py_max [] = Inl (ValueError ''max() arg is an empty sequence'')"
| "py_max (x # xs) = Inr (fold max xs x)"

text \<open>\<open>str.isspace\<close> on one character, for the code points below 256.\<close>

definition is_space :: "char \<Rightarrow> bool" where
  "is_space c = (let n = (of_char c :: nat) in
     (9 \<le> n \<and> n \<le> 13) \<or> (28 \<le> n \<and> n \<le> 32) \<or> n = 133 \<or> n = 160)"

definition strip :: "string \<Rightarrow> string" where
  "strip s = rev (dropWhile is_space (rev (dropWhile is_space s)))"

text \<open>The line boundaries of \<open>str.splitlines\<close>, for the code points below 256.\<close>

definition is_linebreak :: "char \<Rightarrow> bool" where
  "is_linebreak c = (let n = (of_char c :: nat) in
     (10 \<le> n \<and> n \<le> 13) \<or> (28 \<le> n \<and> n \<le> 30) \<or> n = 133)"

fun splitlines_from :: "string \<Rightarrow> string \<Rightarrow> string list" where
  "splitlines_from cur [] = (if cur = [] then [] else [cur])"
| "splitlines_from cur [c] = (if is_linebreak c then [cur] else [cur @ [c]])"
| "splitlines_from cur (c # d # cs) =
     (if c = CHR 0x0D \<and> d = CHR 0x0A then cur # splitlines_from [] cs
      else if is_linebreak c then cur # splitlines_from [] (d # cs)
      else splitlines_from (cur @ [c]) (d # cs))"

definition splitlines :: "string \<Rightarrow> string list" where
  "splitlines s = splitlines_from [] s"

fun join :: "string \<Rightarrow> string list \<Rightarrow> string" where
  "join sep [] = []"
| "join sep [x] = x"
| "join sep (x # y # ys) = x @ sep @ join sep (y # ys)"

text \<open>\<open>str(n)\<close> for a natural number, as the f-strings \<open>f"b{i+1}"\<close> and \<open>f"ocr{i+1}"\<close> use it.\<close>

definition digit_char :: "nat \<Rightarrow> char" where
  "digit_char d = char_of (48 + d)"

fun str_nat :: "nat \<Rightarrow> string" where
  "str_nat n = (if n < 10 then [digit_char n] else str_nat (n div 10) @ [digit_char (n mod 10)])"

declare str_nat.simps [simp del]

text \<open>\<open>Path(p).name\<close> and \<open>Path(p).stem\<close> of pathlib, for POSIX paths.\<close>

fun split_sep :: "string \<Rightarrow> string \<Rightarrow> string list" where
  "split_sep cur [] = [cur]"
| "split_sep cur (c # cs) =
     (if c = CHR ''/'' then cur # split_sep [] cs else split_sep (cur @ [c]) cs)"

definition path_parts :: "string \<Rightarrow> string list" where
  "path_parts p = filter (\<lambda>x. x \<noteq> [] \<and> x \<noteq> ''.'') (split_sep [] p)"

definition path_name :: "string \<Rightarrow> string" where
  "path_name p = (case path_parts p of [] \<Rightarrow> [] | x # xs \<Rightarrow> last (x # xs))"

text \<open>\<open>name.rfind('.')\<close>: the index of the last dot, if there is one.\<close>

fun rfind_dot :: "string \<Rightarrow> nat option" where
  "rfind_dot [] = None"
| "rfind_dot (c # cs) =
     (case rfind_dot cs of
        Some i \<Rightarrow> Some (Suc i)
      | None \<Rightarrow> (if c = CHR ''.'' then Some 0 else None))"

definition path_stem :: "string \<Rightarrow> string" where
  "path_stem p =
     (let name = path_name p in
      case rfind_dot name of
        Some i \<Rightarrow> (if 0 < i \<and> i < length name - 1 then take i name else name)
      | None \<Rightarrow> name)"

section \<open>The module\<close>

text \<open>
  \<open>_get_paddle_ocr\<close> and \<open>_get_easy_ocr\<close>. When the constructor raises, the assignment to
  the global does not happen: the exception leaves the function and the global stays
  \<open>None\<close>.
\<close>

definition get_paddle_ocr :: "env \<Rightarrow> state \<Rightarrow> (error + string option) \<times> state" where
  "get_paddle_ocr e st =
     (if paddle_ocr st = None \<and> PADDLE_AVAILABLE e
      then (case new_PaddleOCR e ''en'' of
              Some err \<Rightarrow> (Inl err, st)
            | None \<Rightarrow> (Inr (Some ''en''), st\<lparr>paddle_ocr := Some ''en''\<rparr>))
      else (Inr (paddle_ocr st), st))"

definition get_easy_ocr :: "env \<Rightarrow> state \<Rightarrow> string \<Rightarrow> (error + string option) \<times> state" where
  "get_easy_ocr e st lang =
     (if easy_ocr st = None \<and> EASYOCR_AVAILABLE e
      then (case new_Reader e lang of
              Some err \<Rightarrow> (Inl err, st)
            | None \<Rightarrow> (Inr (Some lang), st\<lparr>easy_ocr := Some lang\<rparr>))
      else (Inr (easy_ocr st), st))"

text \<open>\<open>document_id or Path(path).stem\<close>: \<open>None\<close> and the empty string are falsy.\<close>

definition doc_id_of :: "string option \<Rightarrow> string \<Rightarrow> string" where
  "doc_id_of supplied path =
     (case supplied of
        None \<Rightarrow> path_stem path
      | Some d \<Rightarrow> (if d = [] then path_stem path else d))"

text \<open>The lines of a fragment that survive, as line 100 of the module computes them.\<close>

definition clean_lines :: "string \<Rightarrow> string list" where
  "clean_lines text_str = map strip (filter (\<lambda>ln. strip ln \<noteq> []) (splitlines text_str))"

text \<open>The loop over \<open>enumerate(raw_blocks)\<close>, from index \<open>i\<close> on.\<close>

fun native_blocks_from :: "nat \<Rightarrow> raw_block list \<Rightarrow> block list" where
  "native_blocks_from i [] = []"
| "native_blocks_from i (Short # rest) = native_blocks_from (Suc i) rest"
| "native_blocks_from i (Blk x0 y0 x1 y1 t # rest) =
     (if clean_lines t \<noteq> []
      then \<lparr>block_id = ''b'' @ str_nat (i + 1), role = ''text'',
            bbox = (py_int x0, py_int y0, py_int x1, py_int y1),
            block_text = join [CHR 0x0A] (clean_lines t), confidence = 1\<rparr>
           # native_blocks_from (Suc i) rest
      else native_blocks_from (Suc i) rest)"

definition native_blocks :: "raw_block list \<Rightarrow> block list" where
  "native_blocks raw = native_blocks_from 0 raw"

text \<open>The axis-aligned box of a polygon; \<open>min\<close> of no vertex raises.\<close>

definition points_bbox :: "(pyfloat \<times> pyfloat) list \<Rightarrow> error + bbox" where
  "points_bbox pts =
     (let xs = map fst pts; ys = map snd pts in
      case py_min xs of Inl err \<Rightarrow> Inl err | Inr mx \<Rightarrow>
     (case py_min ys of Inl err \<Rightarrow> Inl err | Inr my \<Rightarrow>
     (case py_max xs of Inl err \<Rightarrow> Inl err | Inr Mx \<Rightarrow>
     (case py_max ys of Inl err \<Rightarrow> Inl err | Inr My \<Rightarrow>
        Inr (py_int mx, py_int my, py_int Mx, py_int My)))))"

text \<open>
  The loop over \<open>enumerate(result)\<close> that all four OCR branches share, from index \<open>i\<close> on.
  An exception leaves the loop at once.
\<close>

fun ocr_blocks_from :: "nat \<Rightarrow> detection list \<Rightarrow> error + block list" where
  "ocr_blocks_from i [] = Inr []"
| "ocr_blocks_from i ((pts, t, conf) # rest) =
     (case points_bbox pts of
        Inl err \<Rightarrow> Inl err
      | Inr bb \<Rightarrow>
         (case ocr_blocks_from (Suc i) rest of
            Inl err \<Rightarrow> Inl err
          | Inr bs \<Rightarrow>
              Inr (\<lparr>block_id = ''ocr'' @ str_nat (i + 1), role = ''text'', bbox = bb,
                    block_text = t, confidence = conf\<rparr> # bs)))"

definition ocr_blocks :: "detection list \<Rightarrow> error + block list" where
  "ocr_blocks ds = ocr_blocks_from 0 ds"

text \<open>\<open>result and result[0]\<close>: the detections of the first image when both are truthy.\<close>

fun result0 :: "paddle_result \<Rightarrow> detection list option" where
  "result0 (Some (Some (d # ds) # _)) = Some (d # ds)"
| "result0 _ = None"

text \<open>
  The body of the \<open>try\<close> of \<open>_ocr_page\<close>, with the exception that leaves it as \<open>Inl\<close>. The
  state is the one reached when the body returns or raises.
\<close>

definition easy_branch :: "env \<Rightarrow> state \<Rightarrow> image \<Rightarrow> string \<Rightarrow> (error + block list) \<times> state" where
  "easy_branch e st img lang =
     (if EASYOCR_AVAILABLE e then
        (case get_easy_ocr e st lang of
           (Inl err, st1) \<Rightarrow> (Inl err, st1)
         | (Inr None, st1) \<Rightarrow> (Inr [], st1)
         | (Inr (Some l), st1) \<Rightarrow>
            (let st2 = st1\<lparr>trace := trace st1 @ [EasyReadtext l]\<rparr> in
             case readtext e l img of
               Inl err \<Rightarrow> (Inl err, st2)
             | Inr result \<Rightarrow> (ocr_blocks result, st2)))
      else (Inr [], st))"

definition ocr_page_body :: "env \<Rightarrow> state \<Rightarrow> pdf_page \<Rightarrow> string \<Rightarrow> (error + block list) \<times> state" where
  "ocr_page_body e st pg lang =
     (let st0 = st\<lparr>trace := trace st @ [GetPixmap]\<rparr> in
      case get_pixmap pg of
        Inl err \<Rightarrow> (Inl err, st0)
      | Inr img \<Rightarrow>
         (if PADDLE_AVAILABLE e then
            (case get_paddle_ocr e st0 of
               (Inl err, st1) \<Rightarrow> (Inl err, st1)
             | (Inr None, st1) \<Rightarrow> easy_branch e st1 img lang
             | (Inr (Some l), st1) \<Rightarrow>
                (let st2 = st1\<lparr>trace := trace st1 @ [PaddleOcr l]\<rparr> in
                 case ocr e l img of
                   Inl err \<Rightarrow> (Inl err, st2)
                 | Inr result \<Rightarrow>
                    (case result0 result of
                       Some ds \<Rightarrow> (ocr_blocks ds, st2)
                     | None \<Rightarrow> easy_branch e st2 img lang)))
          else easy_branch e st0 img lang))"

text \<open>\<open>_ocr_page\<close>: \<open>except Exception\<close> logs and returns the empty list.\<close>

definition ocr_page :: "env \<Rightarrow> state \<Rightarrow> pdf_page \<Rightarrow> string \<Rightarrow> block list \<times> state" where
  "ocr_page e st pg lang =
     (case ocr_page_body e st pg lang of
        (Inl err, st') \<Rightarrow> ([], st')
      | (Inr bs, st') \<Rightarrow> (bs, st'))"

text \<open>The key of \<open>blocks.sort\<close>: \<open>(b["bbox"][1], b["bbox"][0])\<close>, compared as Python tuples.\<close>

definition reading_key :: "block \<Rightarrow> int \<times> int" where
  "reading_key b = (case bbox b of (x0, y0, x1, y1) \<Rightarrow> (y0, x0))"

text \<open>The blocks of one PDF page before sorting: lines 92 to 116.\<close>

definition page_blocks :: "env \<Rightarrow> state \<Rightarrow> bool \<Rightarrow> string \<Rightarrow> pdf_page \<Rightarrow> block list \<times> state" where
  "page_blocks e st enable_ocr ocr_lang pg =
     (let bs = native_blocks (get_text_blocks pg) in
      if enable_ocr \<and> length bs = 0 then
        (case ocr_page e st pg ocr_lang of
           (ocr_bs, st') \<Rightarrow> (if ocr_bs \<noteq> [] then (ocr_bs, st') else (bs, st')))
      else (bs, st))"

text \<open>One turn of the loop over the pages; \<open>page_num\<close> counts from 0.\<close>

definition process_page ::
  "env \<Rightarrow> state \<Rightarrow> bool \<Rightarrow> string \<Rightarrow> nat \<Rightarrow> pdf_page \<Rightarrow> page_out \<times> state" where
  "process_page e st enable_ocr ocr_lang page_num pg =
     (case page_blocks e st enable_ocr ocr_lang pg of
        (bs, st') \<Rightarrow>
          (\<lparr>page = page_num + 1, width = py_int (rect_width pg),
            height = py_int (rect_height pg), blocks = sort_key reading_key bs\<rparr>, st'))"

fun process_pages ::
  "env \<Rightarrow> state \<Rightarrow> bool \<Rightarrow> string \<Rightarrow> nat \<Rightarrow> pdf_page list \<Rightarrow> page_out list \<times> state" where
  "process_pages e st enable_ocr ocr_lang page_num [] = ([], st)"
| "process_pages e st enable_ocr ocr_lang page_num (pg # rest) =
     (case process_page e st enable_ocr ocr_lang page_num pg of
        (p, st1) \<Rightarrow>
          (case process_pages e st1 enable_ocr ocr_lang (Suc page_num) rest of
             (ps, st2) \<Rightarrow> (p # ps, st2)))"

text \<open>
  \<open>process_pdf_to_layout_json\<close>, returning the dictionary that \<open>json.dumps\<close> serialises,
  or the exception that reaches the caller.
\<close>

definition process_pdf_to_layout_json ::
  "env \<Rightarrow> state \<Rightarrow> string \<Rightarrow> string option \<Rightarrow> bool \<Rightarrow> string \<Rightarrow> (error + document) \<times> state" where
  "process_pdf_to_layout_json e st pdf_path doc_id enable_ocr ocr_lang =
     (if \<not> PYMUPDF_AVAILABLE e
      then (Inl (RuntimeError ''PyMuPDF (fitz) is required for PDF processing. Install with: pip install PyMuPDF''), st)
      else
        (case fitz_open e pdf_path of
           Inl err \<Rightarrow> (Inl err, st)
         | Inr pdf_doc \<Rightarrow>
            (case process_pages e st enable_ocr ocr_lang 0 pdf_doc of
               (ps, st') \<Rightarrow>
                 (Inr \<lparr>document_id = doc_id_of doc_id pdf_path,
                       filename = path_name pdf_path,
                       num_pages = length ps, pages = ps\<rparr>, st'))))"

text \<open>The PaddleOCR branch of \<open>process_image_to_layout_json\<close>: lines 233 to 253.\<close>

definition image_paddle :: "env \<Rightarrow> state \<Rightarrow> image \<Rightarrow> (error + block list) \<times> state" where
  "image_paddle e st img =
     (if PADDLE_AVAILABLE e then
        (case get_paddle_ocr e st of
           (Inl err, st1) \<Rightarrow> (Inl err, st1)
         | (Inr None, st1) \<Rightarrow> (Inr [], st1)
         | (Inr (Some l), st1) \<Rightarrow>
            (let st2 = st1\<lparr>trace := trace st1 @ [PaddleOcr l]\<rparr> in
             case ocr e l img of
               Inl err \<Rightarrow> (Inl err, st2)
             | Inr result \<Rightarrow>
                (case result0 result of
                   Some ds \<Rightarrow> (ocr_blocks ds, st2)
                 | None \<Rightarrow> (Inr [], st2))))
      else (Inr [], st))"

text \<open>The EasyOCR branch: lines 255 to 271, entered with the blocks found so far.\<close>

definition image_easy ::
  "env \<Rightarrow> state \<Rightarrow> image \<Rightarrow> string \<Rightarrow> block list \<Rightarrow> (error + block list) \<times> state" where
  "image_easy e st img ocr_lang bs =
     (if bs = [] \<and> EASYOCR_AVAILABLE e then
        (case get_easy_ocr e st ocr_lang of
           (Inl err, st1) \<Rightarrow> (Inl err, st1)
         | (Inr None, st1) \<Rightarrow> (Inr bs, st1)
         | (Inr (Some l), st1) \<Rightarrow>
            (let st2 = st1\<lparr>trace := trace st1 @ [EasyReadtext l]\<rparr> in
             case readtext e l img of
               Inl err \<Rightarrow> (Inl err, st2)
             | Inr result \<Rightarrow>
                (case ocr_blocks result of
                   Inl err \<Rightarrow> (Inl err, st2)
                 | Inr new \<Rightarrow> (Inr (bs @ new), st2))))
      else (Inr bs, st))"

text \<open>The blocks of an image before sorting.\<close>

definition image_blocks :: "env \<Rightarrow> state \<Rightarrow> image \<Rightarrow> string \<Rightarrow> (error + block list) \<times> state" where
  "image_blocks e st img ocr_lang =
     (case image_paddle e st img of
        (Inl err, st1) \<Rightarrow> (Inl err, st1)
      | (Inr bs, st1) \<Rightarrow> image_easy e st1 img ocr_lang bs)"

text \<open>
  \<open>process_image_to_layout_json\<close>: \<open>except Exception\<close> logs and raises again, so every
  exception of the body reaches the caller.
\<close>

definition process_image_to_layout_json ::
  "env \<Rightarrow> state \<Rightarrow> string \<Rightarrow> string option \<Rightarrow> string \<Rightarrow> (error + document) \<times> state" where
  "process_image_to_layout_json e st image_path doc_id ocr_lang =
     (case imread e image_path of
        None \<Rightarrow> (Inl (ValueError (''Could not load image: '' @ image_path)), st)
      | Some img \<Rightarrow>
         (case image_blocks e st img ocr_lang of
            (Inl err, st') \<Rightarrow> (Inl err, st')
          | (Inr bs, st') \<Rightarrow>
              (Inr \<lparr>document_id = doc_id_of doc_id image_path,
                    filename = path_name image_path,
                    num_pages = 1,
                    pages = [\<lparr>page = 1, width = shape_w img, height = shape_h img,
                              blocks = sort_key reading_key bs\<rparr>]\<rparr>, st')))"

section \<open>Notions the properties are stated with\<close>

text \<open>A text that is empty or consists of whitespace only.\<close>

definition blank :: "string \<Rightarrow> bool" where
  "blank s = list_all is_space s"

text \<open>The pages and the blocks of a result; a call that raised has none.\<close>

definition doc_pages :: "error + document \<Rightarrow> page_out list" where
  "doc_pages r = (case r of Inl err \<Rightarrow> [] | Inr d \<Rightarrow> pages d)"

definition doc_blocks :: "error + document \<Rightarrow> block list" where
  "doc_blocks r = concat (map blocks (doc_pages r))"

text \<open>Every detection that an engine of the environment returns on some image.\<close>

definition engine_detections :: "env \<Rightarrow> detection set" where
  "engine_detections e =
     {d. (\<exists>l img r ds. ocr e l img = Inr r \<and> result0 r = Some ds \<and> d \<in> set ds) \<or>
         (\<exists>l img ds. readtext e l img = Inr ds \<and> d \<in> set ds)}"

text \<open>The language of the engine instance that the next call will use.\<close>

definition paddle_lang :: "state \<Rightarrow> string" where
  "paddle_lang st = (case paddle_ocr st of None \<Rightarrow> ''en'' | Some l \<Rightarrow> l)"

definition easy_lang :: "state \<Rightarrow> string \<Rightarrow> string" where
  "easy_lang st lang = (case easy_ocr st of None \<Rightarrow> lang | Some l \<Rightarrow> l)"

text \<open>
  How often \<open>_ocr_page\<close> has been entered: each call starts by rendering the page, and
  nothing else renders.
\<close>

definition ocr_invocations :: "state \<Rightarrow> nat" where
  "ocr_invocations st = length (filter (\<lambda>ev. ev = GetPixmap) (trace st))"

text \<open>The top edge \<open>bbox[1]\<close> and the left edge \<open>bbox[0]\<close> of a block, and reading order.\<close>

definition top_edge :: "block \<Rightarrow> int" where
  "top_edge b = (case bbox b of (x0, y0, x1, y1) \<Rightarrow> y0)"

definition left_edge :: "block \<Rightarrow> int" where
  "left_edge b = (case bbox b of (x0, y0, x1, y1) \<Rightarrow> x0)"

definition reading_order :: "block \<Rightarrow> block \<Rightarrow> bool" where
  "reading_order a b =
     (top_edge a < top_edge b \<or> (top_edge a = top_edge b \<and> left_edge a \<le> left_edge b))"

text \<open>
  The cleanup of a fragment's text in the words of the specification: split on line
  boundaries, strip each line, discard the empty lines, join the rest with a newline.
\<close>

definition spec_cleanup :: "string \<Rightarrow> string" where
  "spec_cleanup t = join [CHR 0x0A] (filter (\<lambda>ln. ln \<noteq> []) (map strip (splitlines t)))"

text \<open>Whether a fragment of the text layer yields a block: it has a line that survives.\<close>

fun emitted :: "raw_block \<Rightarrow> bool" where
  "emitted Short = False"
| "emitted (Blk x0 y0 x1 y1 t) = (clean_lines t \<noteq> [])"

text \<open>A well-formed box, of a block and of a fragment of the text layer.\<close>

definition bbox_ok :: "block \<Rightarrow> bool" where
  "bbox_ok b = (case bbox b of (x0, y0, x1, y1) \<Rightarrow> x0 \<le> x1 \<and> y0 \<le> y1)"

fun rect_ok :: "raw_block \<Rightarrow> bool" where
  "rect_ok Short = True"
| "rect_ok (Blk x0 y0 x1 y1 t) = (x0 \<le> x1 \<and> y0 \<le> y1)"

text \<open>
  An instance of the engine exists or can be constructed: for PaddleOCR with \<open>en\<close>, for
  EasyOCR with the language of the call.
\<close>

definition paddle_ready :: "env \<Rightarrow> state \<Rightarrow> bool" where
  "paddle_ready e st = (paddle_ocr st \<noteq> None \<or> new_PaddleOCR e ''en'' = None)"

definition easy_ready :: "env \<Rightarrow> state \<Rightarrow> string \<Rightarrow> bool" where
  "easy_ready e st lang = (easy_ocr st \<noteq> None \<or> new_Reader e lang = None)"

text \<open>
  The module state after the page has been rendered, and after an engine has been
  obtained and called.
\<close>

definition rendered :: "state \<Rightarrow> state" where
  "rendered st = st\<lparr>trace := trace st @ [GetPixmap]\<rparr>"

definition paddle_called :: "state \<Rightarrow> state" where
  "paddle_called st =
     st\<lparr>paddle_ocr := Some (paddle_lang st), trace := trace st @ [PaddleOcr (paddle_lang st)]\<rparr>"

definition easy_called :: "state \<Rightarrow> string \<Rightarrow> state" where
  "easy_called st lang =
     st\<lparr>easy_ocr := Some (easy_lang st lang),
        trace := trace st @ [EasyReadtext (easy_lang st lang)]\<rparr>"




text \<open>PaddleOCR is available and returns at least one detection on the image.\<close>

definition paddle_detects :: "env \<Rightarrow> state \<Rightarrow> image \<Rightarrow> bool" where
  "paddle_detects e st img =
     (PADDLE_AVAILABLE e \<and> paddle_ready e st \<and>
      (case ocr e (paddle_lang st) img of Inl err \<Rightarrow> False | Inr r \<Rightarrow> result0 r \<noteq> None))"

section \<open>Concrete inputs\<close>

text \<open>The state of a freshly imported module.\<close>

definition st0 :: state where
  "st0 = \<lparr>paddle_ocr = None, easy_ocr = None, trace = []\<rparr>"

definition img0 :: image where
  "img0 = \<lparr>shape_h = 20, shape_w = 30, samples = []\<rparr>"

text \<open>A letter-size page with the given text layer, which renders to \<open>img0\<close>.\<close>

definition page_of :: "raw_block list \<Rightarrow> pdf_page" where
  "page_of raw = \<lparr>rect_width = 612, rect_height = 792, get_text_blocks = raw,
                   get_pixmap = Inr img0\<rparr>"

text \<open>
  An environment with the file \<open>doc.pdf\<close> of the given pages and the image \<open>scan.png\<close>,
  whose engines can be constructed for every language and answer every call with the
  given results.
\<close>

definition test_env ::
  "bool \<Rightarrow> bool \<Rightarrow> pdf_page list \<Rightarrow> error + paddle_result \<Rightarrow> error + detection list \<Rightarrow> env" where
  "test_env paddle easy pdf paddle_answer easy_answer =
     \<lparr>PYMUPDF_AVAILABLE = True, PADDLE_AVAILABLE = paddle, EASYOCR_AVAILABLE = easy,
      fitz_open = (\<lambda>p. if p = ''doc.pdf'' then Inr pdf else Inl (LibraryError ''cannot open'')),
      imread = (\<lambda>p. if p = ''scan.png'' then Some img0 else None),
      new_PaddleOCR = (\<lambda>l. None), new_Reader = (\<lambda>l. None),
      ocr = (\<lambda>l img. paddle_answer),
      readtext = (\<lambda>l img. easy_answer)\<rparr>"





definition env_easy_strict :: env where
  "env_easy_strict =
     (test_env False True [page_of []] (Inr None) (Inr [([(0, 0), (4, 2)], ''scan'', 9 / 10)]))
       \<lparr>new_Reader := (\<lambda>l. if l = ''en'' then None
                           else Some (LibraryError ''unsupported language''))\<rparr>"



text \<open>An environment in which PaddleOCR reads one line on every image.\<close>

definition env_paddle_reads :: env where
  "env_paddle_reads =
     test_env True True [page_of [], page_of [Blk 10 10 100 30 ''Hello World'']]
       (Inr (Some [Some [([(0, 0), (4, 2)], ''scan'', 9 / 10)]])) (Inr [])"

section \<open>Library facts\<close>

lemma py_int_mono: "a \<le> b \<Longrightarrow> py_int a \<le> py_int b"
proof -
  assume ab: "a \<le> b"
  show ?thesis
  proof (cases "a < 0")
    case True
    note a = this
    show ?thesis
    proof (cases "b < 0")
      case True
      with a ab show ?thesis by (simp add: py_int_def ceiling_mono)
    next
      case False
      from a have "\<lceil>a\<rceil> \<le> 0" by (simp add: ceiling_le_zero)
      moreover from False have "0 \<le> \<lfloor>b\<rfloor>" by simp
      ultimately have "\<lceil>a\<rceil> \<le> \<lfloor>b\<rfloor>" by (rule order_trans)
      with a False show ?thesis by (simp only: py_int_def if_True if_False)
    qed
  next
    case False
    with ab have "\<not> b < 0" by simp
    with False ab show ?thesis by (simp add: py_int_def floor_mono)
  qed
qed

lemma fold_min_le_fold_max: "fold min xs x \<le> fold max xs (x::rat)"
proof -
  have "Min (set (x # xs)) \<le> x" by (rule Min_le) simp_all
  moreover have "x \<le> Max (set (x # xs))" by (rule Max_ge) simp_all
  ultimately show ?thesis by (simp only: Min.set_eq_fold Max.set_eq_fold)
qed

lemma points_bbox_ordered:
  "points_bbox pts = Inr (x0, y0, x1, y1) \<Longrightarrow> x0 \<le> x1 \<and> y0 \<le> y1"
  by (cases pts) (auto simp: points_bbox_def intro!: py_int_mono fold_min_le_fold_max)

lemma points_bbox_Nil: "points_bbox [] = Inl (ValueError ''min() arg is an empty sequence'')"
  by (simp add: points_bbox_def)

lemma strip_prefix: "\<exists>r. dropWhile is_space s = strip s @ r"
proof -
  let ?t = "dropWhile is_space s"
  have "rev (takeWhile is_space (rev ?t) @ dropWhile is_space (rev ?t)) = ?t"
    by (simp only: takeWhile_dropWhile_id rev_rev_ident)
  then have "rev (dropWhile is_space (rev ?t)) @ rev (takeWhile is_space (rev ?t)) = ?t"
    by (simp only: rev_append)
  then have "?t = strip s @ rev (takeWhile is_space (rev ?t))"
    by (simp only: strip_def)
  then show ?thesis by blast
qed

lemma strip_hd: "strip s \<noteq> [] \<Longrightarrow> \<not> is_space (hd (strip s))"
proof -
  assume ne: "strip s \<noteq> []"
  obtain r where r: "dropWhile is_space s = strip s @ r" using strip_prefix by blast
  with ne have "dropWhile is_space s \<noteq> []" by auto
  then have "\<not> is_space (hd (dropWhile is_space s))" by (rule hd_dropWhile)
  with r ne show ?thesis by (simp add: hd_append)
qed

lemma join_hd: "ls \<noteq> [] \<Longrightarrow> hd ls \<noteq> [] \<Longrightarrow> join sep ls \<noteq> [] \<and> hd (join sep ls) = hd (hd ls)"
  by (induction sep ls rule: join.induct) auto

lemma digit_char_inj: "a < 10 \<Longrightarrow> b < 10 \<Longrightarrow> digit_char a = digit_char b \<Longrightarrow> a = b"
  by (simp add: digit_char_def char_of_eq_iff take_bit_nat_eq_self)

lemma str_nat_not_Nil: "str_nat n \<noteq> []"
  by (subst str_nat.simps) simp

lemma str_nat_inj: "str_nat n = str_nat m \<Longrightarrow> n = m"
proof (induction n arbitrary: m rule: str_nat.induct)
  case (1 n)
  show ?case
  proof (cases "n < 10")
    case True
    note n = this
    show ?thesis
    proof (cases "m < 10")
      case True
      with n "1.prems" show ?thesis
        by (simp add: str_nat.simps [of n] str_nat.simps [of m] digit_char_inj)
    next
      case False
      with n "1.prems" show ?thesis
        using str_nat_not_Nil [of "m div 10"]
        by (simp add: str_nat.simps [of n] str_nat.simps [of m])
    qed
  next
    case False
    note n = this
    show ?thesis
    proof (cases "m < 10")
      case True
      with n "1.prems" show ?thesis
        using str_nat_not_Nil [of "n div 10"]
        by (simp add: str_nat.simps [of n] str_nat.simps [of m])
    next
      case False
      with n "1.prems" have eq: "str_nat (n div 10) = str_nat (m div 10)"
        and d: "digit_char (n mod 10) = digit_char (m mod 10)"
        by (simp_all add: str_nat.simps [of n] str_nat.simps [of m])
      from "1.IH" [OF n eq] have "n div 10 = m div 10" .
      moreover from d have "n mod 10 = m mod 10" by (intro digit_char_inj) simp_all
      ultimately show ?thesis by (metis div_mult_mod_eq)
    qed
  qed
qed

lemma native_blocks_from_mem:
  "b \<in> set (native_blocks_from i raw) \<longleftrightarrow>
     (\<exists>k x0 y0 x1 y1 t. k < length raw \<and> raw ! k = Blk x0 y0 x1 y1 t \<and> clean_lines t \<noteq> [] \<and>
        b = \<lparr>block_id = ''b'' @ str_nat (i + k + 1), role = ''text'',
              bbox = (py_int x0, py_int y0, py_int x1, py_int y1),
              block_text = join [CHR 0x0A] (clean_lines t), confidence = 1\<rparr>)"
  (is "?L i raw \<longleftrightarrow> ?R i raw")
proof (induction i raw rule: native_blocks_from.induct)
  case (1 i)
  show ?case by simp
next
  case (2 i rest)
  have "?R i (Short # rest) \<longleftrightarrow> ?R (Suc i) rest"
  proof
    assume "?R i (Short # rest)"
    then obtain k x0 y0 x1 y1 t where k: "k < length (Short # rest)"
      "(Short # rest) ! k = Blk x0 y0 x1 y1 t" "clean_lines t \<noteq> []"
      "b = \<lparr>block_id = ''b'' @ str_nat (i + k + 1), role = ''text'',
              bbox = (py_int x0, py_int y0, py_int x1, py_int y1),
              block_text = join [CHR 0x0A] (clean_lines t), confidence = 1\<rparr>" by blast
    from k(2) obtain k' where k': "k = Suc k'" by (cases k) auto
    with k show "?R (Suc i) rest" by (intro exI [of _ k']) auto
  next
    assume "?R (Suc i) rest"
    then obtain k x0 y0 x1 y1 t where k: "k < length rest"
      "rest ! k = Blk x0 y0 x1 y1 t" "clean_lines t \<noteq> []"
      "b = \<lparr>block_id = ''b'' @ str_nat (Suc i + k + 1), role = ''text'',
              bbox = (py_int x0, py_int y0, py_int x1, py_int y1),
              block_text = join [CHR 0x0A] (clean_lines t), confidence = 1\<rparr>" by blast
    then show "?R i (Short # rest)" by (intro exI [of _ "Suc k"]) auto
  qed
  with 2 show ?case by simp
next
  case (3 i x0 y0 x1 y1 t rest)
  let ?blk = "Blk x0 y0 x1 y1 t"
  let ?new = "\<lparr>block_id = ''b'' @ str_nat (i + 1), role = ''text'',
              bbox = (py_int x0, py_int y0, py_int x1, py_int y1),
              block_text = join [CHR 0x0A] (clean_lines t), confidence = 1\<rparr>"
  have "?R i (?blk # rest) \<longleftrightarrow> (clean_lines t \<noteq> [] \<and> b = ?new) \<or> ?R (Suc i) rest"
  proof
    assume "?R i (?blk # rest)"
    then obtain k a0 b0 a1 b1 u where k: "k < length (?blk # rest)"
      "(?blk # rest) ! k = Blk a0 b0 a1 b1 u" "clean_lines u \<noteq> []"
      "b = \<lparr>block_id = ''b'' @ str_nat (i + k + 1), role = ''text'',
              bbox = (py_int a0, py_int b0, py_int a1, py_int b1),
              block_text = join [CHR 0x0A] (clean_lines u), confidence = 1\<rparr>" by blast
    show "(clean_lines t \<noteq> [] \<and> b = ?new) \<or> ?R (Suc i) rest"
    proof (cases k)
      case 0
      with k show ?thesis by simp
    next
      case (Suc k')
      with k have "?R (Suc i) rest" by (intro exI [of _ k']) auto
      then show ?thesis ..
    qed
  next
    assume "(clean_lines t \<noteq> [] \<and> b = ?new) \<or> ?R (Suc i) rest"
    then show "?R i (?blk # rest)"
    proof
      assume "clean_lines t \<noteq> [] \<and> b = ?new"
      then show ?thesis
        by (intro exI [of _ 0] exI [of _ x0] exI [of _ y0] exI [of _ x1] exI [of _ y1]
              exI [of _ t]) simp
    next
      assume "?R (Suc i) rest"
      then obtain k a0 b0 a1 b1 u where k: "k < length rest"
        "rest ! k = Blk a0 b0 a1 b1 u" "clean_lines u \<noteq> []"
        "b = \<lparr>block_id = ''b'' @ str_nat (Suc i + k + 1), role = ''text'',
              bbox = (py_int a0, py_int b0, py_int a1, py_int b1),
              block_text = join [CHR 0x0A] (clean_lines u), confidence = 1\<rparr>" by blast
      then show ?thesis by (intro exI [of _ "Suc k"]) auto
    qed
  qed
  with 3 show ?case by auto
qed

lemma ocr_blocks_from_Inr:
  "ocr_blocks_from i ds = Inr bs \<Longrightarrow>
     length bs = length ds \<and>
     (\<forall>k<length ds. \<exists>bb. points_bbox (fst (ds ! k)) = Inr bb \<and>
        bs ! k = \<lparr>block_id = ''ocr'' @ str_nat (i + k + 1), role = ''text'', bbox = bb,
                  block_text = fst (snd (ds ! k)), confidence = snd (snd (ds ! k))\<rparr>)"
proof (induction ds arbitrary: i bs)
  case Nil
  then show ?case by simp
next
  case (Cons d ds)
  obtain pts t c where d: "d = (pts, t, c)" by (cases d) auto
  from Cons.prems d obtain bb rest where bb: "points_bbox pts = Inr bb"
    and rest: "ocr_blocks_from (Suc i) ds = Inr rest"
    and bs: "bs = \<lparr>block_id = ''ocr'' @ str_nat (i + 1), role = ''text'', bbox = bb,
                    block_text = t, confidence = c\<rparr> # rest"
    by (auto split: sum.splits)
  from Cons.IH [OF rest] have len: "length rest = length ds"
    and ih: "\<And>k. k < length ds \<Longrightarrow> \<exists>bb. points_bbox (fst (ds ! k)) = Inr bb \<and>
        rest ! k = \<lparr>block_id = ''ocr'' @ str_nat (Suc i + k + 1), role = ''text'', bbox = bb,
                  block_text = fst (snd (ds ! k)), confidence = snd (snd (ds ! k))\<rparr>"
    by auto
  show ?case
  proof (intro conjI allI impI)
    show "length bs = length (d # ds)" using bs len by simp
  next
    fix k assume "k < length (d # ds)"
    then show "\<exists>bb. points_bbox (fst ((d # ds) ! k)) = Inr bb \<and>
        bs ! k = \<lparr>block_id = ''ocr'' @ str_nat (i + k + 1), role = ''text'', bbox = bb,
                  block_text = fst (snd ((d # ds) ! k)), confidence = snd (snd ((d # ds) ! k))\<rparr>"
    proof (cases k)
      case 0
      with bb bs d show ?thesis by (intro exI [of _ bb]) simp
    next
      case (Suc k')
      with \<open>k < length (d # ds)\<close> have "k' < length ds" by simp
      from ih [OF this] obtain bb' where "points_bbox (fst (ds ! k')) = Inr bb'"
        "rest ! k' = \<lparr>block_id = ''ocr'' @ str_nat (Suc i + k' + 1), role = ''text'',
           bbox = bb', block_text = fst (snd (ds ! k')), confidence = snd (snd (ds ! k'))\<rparr>"
        by blast
      with Suc bs show ?thesis by (intro exI [of _ bb']) simp
    qed
  qed
qed

section \<open>The steps of the OCR branches\<close>

lemma rendered_fields:
  "paddle_ocr (rendered st) = paddle_ocr st"
  "easy_ocr (rendered st) = easy_ocr st"
  "trace (rendered st) = trace st @ [GetPixmap]"
  "paddle_lang (rendered st) = paddle_lang st"
  "easy_lang (rendered st) l = easy_lang st l"
  "paddle_ready e (rendered st) = paddle_ready e st"
  "easy_ready e (rendered st) l = easy_ready e st l"
  by (simp_all add: rendered_def paddle_lang_def easy_lang_def paddle_ready_def easy_ready_def)

lemma paddle_called_fields:
  "paddle_ocr (paddle_called st) = Some (paddle_lang st)"
  "easy_ocr (paddle_called st) = easy_ocr st"
  "trace (paddle_called st) = trace st @ [PaddleOcr (paddle_lang st)]"
  "paddle_lang (paddle_called st) = paddle_lang st"
  "easy_lang (paddle_called st) l = easy_lang st l"
  "paddle_ready e (paddle_called st)"
  "easy_ready e (paddle_called st) l = easy_ready e st l"
  by (simp_all add: paddle_called_def paddle_lang_def easy_lang_def paddle_ready_def
      easy_ready_def)

lemma easy_called_fields:
  "paddle_ocr (easy_called st l) = paddle_ocr st"
  "easy_ocr (easy_called st l) = Some (easy_lang st l)"
  "trace (easy_called st l) = trace st @ [EasyReadtext (easy_lang st l)]"
  "paddle_lang (easy_called st l) = paddle_lang st"
  "paddle_ready e (easy_called st l) = paddle_ready e st"
  by (simp_all add: easy_called_def paddle_lang_def paddle_ready_def)

lemma get_paddle_ocr_ready:
  "PADDLE_AVAILABLE e \<Longrightarrow> paddle_ready e st \<Longrightarrow>
     get_paddle_ocr e st = (Inr (Some (paddle_lang st)), st\<lparr>paddle_ocr := Some (paddle_lang st)\<rparr>)"
  by (cases "paddle_ocr st")
    (simp_all add: get_paddle_ocr_def paddle_lang_def paddle_ready_def)

lemma get_paddle_ocr_not_ready:
  "PADDLE_AVAILABLE e \<Longrightarrow> \<not> paddle_ready e st \<Longrightarrow>
     get_paddle_ocr e st = (Inl (the (new_PaddleOCR e ''en'')), st)"
  by (cases "new_PaddleOCR e ''en''") (simp_all add: get_paddle_ocr_def paddle_ready_def)

lemma get_easy_ocr_ready:
  "EASYOCR_AVAILABLE e \<Longrightarrow> easy_ready e st lang \<Longrightarrow>
     get_easy_ocr e st lang =
       (Inr (Some (easy_lang st lang)), st\<lparr>easy_ocr := Some (easy_lang st lang)\<rparr>)"
  by (cases "easy_ocr st")
    (simp_all add: get_easy_ocr_def easy_lang_def easy_ready_def)

lemma get_easy_ocr_not_ready:
  "EASYOCR_AVAILABLE e \<Longrightarrow> \<not> easy_ready e st lang \<Longrightarrow>
     get_easy_ocr e st lang = (Inl (the (new_Reader e lang)), st)"
  by (cases "new_Reader e lang") (simp_all add: get_easy_ocr_def easy_ready_def)

text \<open>The EasyOCR branch of \<open>_ocr_page\<close>, case by case.\<close>

lemma easy_branch_eq:
  "easy_branch e st img lang =
     (if \<not> EASYOCR_AVAILABLE e then (Inr [], st)
      else if \<not> easy_ready e st lang then (Inl (the (new_Reader e lang)), st)
      else (case readtext e (easy_lang st lang) img of
              Inl err \<Rightarrow> (Inl err, easy_called st lang)
            | Inr ds \<Rightarrow> (ocr_blocks ds, easy_called st lang)))"
proof (cases "EASYOCR_AVAILABLE e")
  case False
  then show ?thesis by (simp add: easy_branch_def)
next
  case True
  show ?thesis
  proof (cases "easy_ready e st lang")
    case False
    with True show ?thesis by (simp add: easy_branch_def get_easy_ocr_not_ready)
  next
    case ready: True
    with True show ?thesis
      by (cases "readtext e (easy_lang st lang) img")
        (simp_all add: easy_branch_def get_easy_ocr_ready easy_called_def)
  qed
qed

text \<open>The body of \<open>_ocr_page\<close>, case by case.\<close>

lemma ocr_page_body_eq:
  "ocr_page_body e st pg lang =
     (case get_pixmap pg of
        Inl err \<Rightarrow> (Inl err, rendered st)
      | Inr img \<Rightarrow>
         (if \<not> PADDLE_AVAILABLE e then easy_branch e (rendered st) img lang
          else if \<not> paddle_ready e st then (Inl (the (new_PaddleOCR e ''en'')), rendered st)
          else (case ocr e (paddle_lang st) img of
                  Inl err \<Rightarrow> (Inl err, paddle_called (rendered st))
                | Inr r \<Rightarrow>
                   (case result0 r of
                      Some ds \<Rightarrow> (ocr_blocks ds, paddle_called (rendered st))
                    | None \<Rightarrow> easy_branch e (paddle_called (rendered st)) img lang))))"
proof (cases "get_pixmap pg")
  case (Inl err)
  then show ?thesis by (simp add: ocr_page_body_def rendered_def)
next
  case pix: (Inr img)
  have r: "st\<lparr>trace := trace st @ [GetPixmap]\<rparr> = rendered st" by (simp add: rendered_def)
  show ?thesis
  proof (cases "PADDLE_AVAILABLE e")
    case False
    with pix show ?thesis by (simp add: ocr_page_body_def r)
  next
    case True
    show ?thesis
    proof (cases "paddle_ready e st")
      case False
      with pix True show ?thesis
        by (simp add: ocr_page_body_def r get_paddle_ocr_not_ready rendered_fields)
    next
      case ready: True
      have c: "rendered st\<lparr>paddle_ocr := Some (paddle_lang st),
            trace := trace st @ [GetPixmap, PaddleOcr (paddle_lang st)]\<rparr> =
          paddle_called (rendered st)"
        by (simp add: paddle_called_def rendered_fields)
      show ?thesis
      proof (cases "ocr e (paddle_lang st) img")
        case (Inl err)
        with pix True ready show ?thesis
          by (simp add: ocr_page_body_def r get_paddle_ocr_ready rendered_fields c)
      next
        case (Inr res)
        with pix True ready show ?thesis
          by (cases "result0 res")
            (simp_all add: ocr_page_body_def r get_paddle_ocr_ready rendered_fields c)
      qed
    qed
  qed
qed

text \<open>The two branches of \<open>process_image_to_layout_json\<close>, case by case.\<close>

lemma image_paddle_eq:
  "image_paddle e st img =
     (if \<not> PADDLE_AVAILABLE e then (Inr [], st)
      else if \<not> paddle_ready e st then (Inl (the (new_PaddleOCR e ''en'')), st)
      else (case ocr e (paddle_lang st) img of
              Inl err \<Rightarrow> (Inl err, paddle_called st)
            | Inr r \<Rightarrow>
               (case result0 r of
                  Some ds \<Rightarrow> (ocr_blocks ds, paddle_called st)
                | None \<Rightarrow> (Inr [], paddle_called st))))"
proof (cases "PADDLE_AVAILABLE e")
  case False
  then show ?thesis by (simp add: image_paddle_def)
next
  case True
  show ?thesis
  proof (cases "paddle_ready e st")
    case False
    with True show ?thesis by (simp add: image_paddle_def get_paddle_ocr_not_ready)
  next
    case ready: True
    show ?thesis
    proof (cases "ocr e (paddle_lang st) img")
      case (Inl err)
      with True ready show ?thesis
        by (simp add: image_paddle_def get_paddle_ocr_ready paddle_called_def)
    next
      case (Inr res)
      with True ready show ?thesis
        by (cases "result0 res")
          (simp_all add: image_paddle_def get_paddle_ocr_ready paddle_called_def)
    qed
  qed
qed

lemma image_easy_eq:
  "image_easy e st img lang bs =
     (if bs \<noteq> [] then (Inr bs, st) else easy_branch e st img lang)"
proof (cases "bs = [] \<and> EASYOCR_AVAILABLE e")
  case False
  then show ?thesis by (auto simp: image_easy_def easy_branch_eq)
next
  case True
  show ?thesis
  proof (cases "easy_ready e st lang")
    case False
    with True show ?thesis by (simp add: image_easy_def easy_branch_eq get_easy_ocr_not_ready)
  next
    case ready: True
    show ?thesis
    proof (cases "readtext e (easy_lang st lang) img")
      case (Inl err)
      with True ready show ?thesis
        by (simp add: image_easy_def easy_branch_eq get_easy_ocr_ready easy_called_def)
    next
      case (Inr ds)
      with True ready show ?thesis
        by (cases "ocr_blocks ds")
          (simp_all add: image_easy_def easy_branch_eq get_easy_ocr_ready easy_called_def)
    qed
  qed
qed

text \<open>The states that the branches can leave behind.\<close>

lemma easy_branch_state:
  "snd (easy_branch e st img lang) = st \<or> snd (easy_branch e st img lang) = easy_called st lang"
  by (cases "readtext e (easy_lang st lang) img") (simp_all add: easy_branch_eq)

lemma ocr_page_body_states:
  "snd (ocr_page_body e st pg lang) \<in>
     {rendered st, paddle_called (rendered st), easy_called (rendered st) lang,
      easy_called (paddle_called (rendered st)) lang}"
proof (cases "get_pixmap pg")
  case (Inl err)
  then show ?thesis by (simp add: ocr_page_body_eq)
next
  case pix: (Inr img)
  show ?thesis
  proof (cases "PADDLE_AVAILABLE e \<and> paddle_ready e st")
    case False
    with pix easy_branch_state [of e "rendered st" img lang] show ?thesis
      by (auto simp: ocr_page_body_eq)
  next
    case True
    show ?thesis
    proof (cases "ocr e (paddle_lang st) img")
      case (Inl err)
      with pix True show ?thesis by (simp add: ocr_page_body_eq)
    next
      case (Inr r)
      with pix True easy_branch_state [of e "paddle_called (rendered st)" img lang]
      show ?thesis by (cases "result0 r") (auto simp: ocr_page_body_eq)
    qed
  qed
qed

lemma image_paddle_state:
  "snd (image_paddle e st img) = st \<or> snd (image_paddle e st img) = paddle_called st"
proof (cases "ocr e (paddle_lang st) img")
  case (Inl err)
  then show ?thesis by (simp add: image_paddle_eq)
next
  case (Inr r)
  then show ?thesis by (cases "result0 r") (simp_all add: image_paddle_eq)
qed

lemma image_blocks_states:
  "snd (image_blocks e st img lang) \<in>
     {st, paddle_called st, easy_called st lang, easy_called (paddle_called st) lang}"
proof (cases "image_paddle e st img")
  case (Pair r st1)
  with image_paddle_state [of e st img] have st1: "st1 = st \<or> st1 = paddle_called st" by simp
  show ?thesis
  proof (cases r)
    case (Inl err)
    with Pair st1 show ?thesis by (auto simp: image_blocks_def)
  next
    case (Inr bs)
    with Pair st1 easy_branch_state [of e st1 img lang] show ?thesis
      by (auto simp: image_blocks_def image_easy_eq)
  qed
qed

lemma invocations_fields:
  "ocr_invocations (rendered st) = Suc (ocr_invocations st)"
  "ocr_invocations (paddle_called st) = ocr_invocations st"
  "ocr_invocations (easy_called st l) = ocr_invocations st"
  by (simp_all add: ocr_invocations_def rendered_def paddle_called_def easy_called_def)

section \<open>Where the blocks of a page come from\<close>

lemma nothing_found: "\<exists>ds. ocr_blocks ds = Inr [] \<and> set ds \<subseteq> engine_detections e"
  by (intro exI [of _ "[]"]) (simp add: ocr_blocks_def)

lemma easy_branch_provenance:
  assumes "easy_branch e st img lang = (Inr bs, st')"
  shows "\<exists>ds. ocr_blocks ds = Inr bs \<and> set ds \<subseteq> engine_detections e"
proof (cases "EASYOCR_AVAILABLE e")
  case False
  with assms have "bs = []" by (simp add: easy_branch_eq)
  with nothing_found show ?thesis by simp
next
  case True
  show ?thesis
  proof (cases "easy_ready e st lang")
    case False
    with True assms show ?thesis by (simp add: easy_branch_eq)
  next
    case ready: True
    show ?thesis
    proof (cases "readtext e (easy_lang st lang) img")
      case (Inl err)
      with True ready assms show ?thesis by (simp add: easy_branch_eq)
    next
      case (Inr ds)
      with True ready assms have "ocr_blocks ds = Inr bs" by (simp add: easy_branch_eq)
      moreover from Inr have "set ds \<subseteq> engine_detections e"
        by (auto simp: engine_detections_def)
      ultimately show ?thesis by blast
    qed
  qed
qed

lemma result0_Some: "ocr e l img = Inr r \<Longrightarrow> result0 r = Some ds \<Longrightarrow> set ds \<subseteq> engine_detections e"
  by (auto simp: engine_detections_def)

lemma ocr_page_body_provenance:
  assumes "ocr_page_body e st pg lang = (Inr bs, st')"
  shows "\<exists>ds. ocr_blocks ds = Inr bs \<and> set ds \<subseteq> engine_detections e"
proof (cases "get_pixmap pg")
  case (Inl err)
  with assms show ?thesis by (simp add: ocr_page_body_eq)
next
  case pix: (Inr img)
  show ?thesis
  proof (cases "PADDLE_AVAILABLE e")
    case False
    with pix assms have "easy_branch e (rendered st) img lang = (Inr bs, st')"
      by (simp add: ocr_page_body_eq)
    then show ?thesis by (rule easy_branch_provenance)
  next
    case True
    show ?thesis
    proof (cases "paddle_ready e st")
      case False
      with pix True assms show ?thesis by (simp add: ocr_page_body_eq)
    next
      case ready: True
      show ?thesis
      proof (cases "ocr e (paddle_lang st) img")
        case (Inl err)
        with pix True ready assms show ?thesis by (simp add: ocr_page_body_eq)
      next
        case res: (Inr r)
        show ?thesis
        proof (cases "result0 r")
          case None
          with pix True ready res assms
          have "easy_branch e (paddle_called (rendered st)) img lang = (Inr bs, st')"
            by (simp add: ocr_page_body_eq)
          then show ?thesis by (rule easy_branch_provenance)
        next
          case (Some ds)
          with pix True ready res assms have "ocr_blocks ds = Inr bs"
            by (simp add: ocr_page_body_eq)
          moreover from res Some have "set ds \<subseteq> engine_detections e" by (rule result0_Some)
          ultimately show ?thesis by blast
        qed
      qed
    qed
  qed
qed

lemma ocr_page_provenance:
  "\<exists>ds. ocr_blocks ds = Inr (fst (ocr_page e st pg lang)) \<and> set ds \<subseteq> engine_detections e"
proof (cases "ocr_page_body e st pg lang")
  case (Pair r st')
  show ?thesis
  proof (cases r)
    case (Inl err)
    with Pair have "fst (ocr_page e st pg lang) = []" by (simp add: ocr_page_def)
    then have "ocr_blocks [] = Inr (fst (ocr_page e st pg lang))" by (simp add: ocr_blocks_def)
    then show ?thesis by (intro exI [of _ "[]"]) simp
  next
    case (Inr bs)
    with Pair have "fst (ocr_page e st pg lang) = bs" by (simp add: ocr_page_def)
    with Pair Inr ocr_page_body_provenance [of e st pg lang bs st'] show ?thesis by simp
  qed
qed

lemma page_blocks_provenance:
  "fst (page_blocks e st en lang pg) = native_blocks (get_text_blocks pg) \<or>
   (native_blocks (get_text_blocks pg) = [] \<and> en \<and>
    (\<exists>ds. ocr_blocks ds = Inr (fst (page_blocks e st en lang pg)) \<and>
          set ds \<subseteq> engine_detections e))"
proof (cases "en \<and> native_blocks (get_text_blocks pg) = []")
  case False
  then show ?thesis by (auto simp: page_blocks_def)
next
  case True
  show ?thesis
  proof (cases "fst (ocr_page e st pg lang) = []")
    case True
    with \<open>en \<and> native_blocks (get_text_blocks pg) = []\<close> show ?thesis
      by (cases "ocr_page e st pg lang") (auto simp: page_blocks_def)
  next
    case False
    with True have "fst (page_blocks e st en lang pg) = fst (ocr_page e st pg lang)"
      by (cases "ocr_page e st pg lang") (auto simp: page_blocks_def)
    with True ocr_page_provenance [of e st pg lang] show ?thesis by simp
  qed
qed

lemma ocr_blocks_Nil: "ocr_blocks [] = Inr []"
  by (simp add: ocr_blocks_def)

lemma image_paddle_provenance:
  assumes "image_paddle e st img = (Inr bs, st')"
  shows "\<exists>ds. ocr_blocks ds = Inr bs \<and> set ds \<subseteq> engine_detections e"
proof (cases "PADDLE_AVAILABLE e")
  case False
  with assms have "bs = []" by (simp add: image_paddle_eq)
  with nothing_found show ?thesis by simp
next
  case True
  show ?thesis
  proof (cases "paddle_ready e st")
    case False
    with True assms show ?thesis by (simp add: image_paddle_eq)
  next
    case ready: True
    show ?thesis
    proof (cases "ocr e (paddle_lang st) img")
      case (Inl err)
      with True ready assms show ?thesis by (simp add: image_paddle_eq)
    next
      case res: (Inr r)
      show ?thesis
      proof (cases "result0 r")
        case None
        with True ready res assms have "bs = []" by (simp add: image_paddle_eq)
        with nothing_found show ?thesis by simp
      next
        case (Some ds)
        with True ready res assms have "ocr_blocks ds = Inr bs" by (simp add: image_paddle_eq)
        moreover from res Some have "set ds \<subseteq> engine_detections e" by (rule result0_Some)
        ultimately show ?thesis by blast
      qed
    qed
  qed
qed

lemma image_easy_provenance:
  assumes "image_easy e st img lang bs0 = (Inr bs, st')"
  shows "bs = bs0 \<or> (\<exists>ds. ocr_blocks ds = Inr bs \<and> set ds \<subseteq> engine_detections e)"
proof (cases "bs0 = []")
  case False
  with assms show ?thesis by (simp add: image_easy_eq)
next
  case True
  with assms have "easy_branch e st img lang = (Inr bs, st')" by (simp add: image_easy_eq)
  then show ?thesis by (intro disjI2) (rule easy_branch_provenance)
qed

lemma image_blocks_provenance:
  "image_blocks e st img lang = (Inr bs, st') \<Longrightarrow>
     \<exists>ds. ocr_blocks ds = Inr bs \<and> set ds \<subseteq> engine_detections e"
proof -
  assume a: "image_blocks e st img lang = (Inr bs, st')"
  then obtain bs0 st1 where p: "image_paddle e st img = (Inr bs0, st1)"
    and q: "image_easy e st1 img lang bs0 = (Inr bs, st')"
    by (auto simp: image_blocks_def split: prod.splits sum.splits)
  from image_easy_provenance [OF q] image_paddle_provenance [OF p] show ?thesis by auto
qed

lemma process_pages_mem:
  "p \<in> set (fst (process_pages e st en l n pgs)) \<Longrightarrow>
     \<exists>st' n' pg. pg \<in> set pgs \<and> p = fst (process_page e st' en l n' pg)"
proof (induction pgs arbitrary: st n)
  case Nil
  then show ?case by simp
next
  case (Cons pg pgs)
  obtain q st1 where q: "process_page e st en l n pg = (q, st1)" by (cases "process_page e st en l n pg")
  obtain qs st2 where qs: "process_pages e st1 en l (Suc n) pgs = (qs, st2)"
    by (cases "process_pages e st1 en l (Suc n) pgs")
  from Cons.prems q qs have "p = q \<or> p \<in> set qs" by simp
  then show ?case
  proof
    assume "p = q"
    with q have "p = fst (process_page e st en l n pg)" by simp
    then show ?thesis by (intro exI [of _ st] exI [of _ n] exI [of _ pg]) simp
  next
    assume "p \<in> set qs"
    with qs have "p \<in> set (fst (process_pages e st1 en l (Suc n) pgs))" by simp
    from Cons.IH [OF this] show ?thesis by auto
  qed
qed


lemma process_pdf_pages:
  "p \<in> set (doc_pages (fst (process_pdf_to_layout_json e st path did en l))) \<Longrightarrow>
     \<exists>pdf_doc st' n' pg. fitz_open e path = Inr pdf_doc \<and> pg \<in> set pdf_doc \<and>
        p = fst (process_page e st' en l n' pg)"
proof -
  assume a: "p \<in> set (doc_pages (fst (process_pdf_to_layout_json e st path did en l)))"
  then obtain pdf_doc where o: "fitz_open e path = Inr pdf_doc"
    and "p \<in> set (fst (process_pages e st en l 0 pdf_doc))"
    by (auto simp: process_pdf_to_layout_json_def doc_pages_def split: if_splits sum.splits prod.splits)
  from process_pages_mem [OF this(2)] o show ?thesis by blast
qed

lemma process_image_pages:
  "p \<in> set (doc_pages (fst (process_image_to_layout_json e st path did l))) \<Longrightarrow>
     \<exists>img bs st'. imread e path = Some img \<and> image_blocks e st img l = (Inr bs, st') \<and>
        blocks p = sort_key reading_key bs"
  by (auto simp: process_image_to_layout_json_def doc_pages_def
      split: option.splits sum.splits prod.splits)

section \<open>The document identifier\<close>

text \<open>
  C10. In both entry points an empty string supplied as \<open>document_id\<close> is falsy and is
  replaced by the stem of the source file name, exactly as an omitted \<open>document_id\<close> is.
\<close>

theorem empty_document_id_falls_back_to_stem:
  "process_pdf_to_layout_json e st path (Some []) en lang =
     process_pdf_to_layout_json e st path None en lang \<and>
   process_image_to_layout_json e st path (Some []) lang =
     process_image_to_layout_json e st path None lang \<and>
   (\<forall>d. fst (process_pdf_to_layout_json e st path (Some []) en lang) = Inr d \<longrightarrow>
        document_id d = path_stem path) \<and>
   (\<forall>d. fst (process_image_to_layout_json e st path (Some []) lang) = Inr d \<longrightarrow>
        document_id d = path_stem path)"
  by (auto simp: process_pdf_to_layout_json_def process_image_to_layout_json_def doc_id_of_def
      split: sum.splits prod.splits option.splits if_splits)

theorem empty_document_id_falls_back_to_stem_witness:
  "fst (process_image_to_layout_json (test_env False False [] (Inr None) (Inr [])) st0
        ''scan.png'' (Some []) ''en'') =
     Inr \<lparr>document_id = ''scan'', filename = ''scan.png'', num_pages = 1,
          pages = [\<lparr>page = 1, width = 30, height = 20, blocks = []\<rparr>]\<rparr> \<and>
   fst (process_pdf_to_layout_json (test_env False False [page_of []] (Inr None) (Inr [])) st0
        ''doc.pdf'' (Some []) True ''en'') =
     Inr \<lparr>document_id = ''doc'', filename = ''doc.pdf'', num_pages = 1,
          pages = [\<lparr>page = 1, width = 612, height = 792, blocks = []\<rparr>]\<rparr> \<and>
   document_id \<lparr>document_id = ''scan'', filename = ''scan.png'', num_pages = 1,
          pages = [\<lparr>page = 1, width = 30, height = 20, blocks = []\<rparr>]\<rparr> = path_stem ''scan.png'' \<and>
   document_id \<lparr>document_id = ''doc'', filename = ''doc.pdf'', num_pages = 1,
          pages = [\<lparr>page = 1, width = 612, height = 792, blocks = []\<rparr>]\<rparr> = path_stem ''doc.pdf''"
proof -
  let ?e1 = "test_env False False [] (Inr None) (Inr [])"
  let ?e2 = "test_env False False [page_of []] (Inr None) (Inr [])"
  have i: "fst (process_image_to_layout_json ?e1 st0 ''scan.png'' (Some []) ''en'') =
     Inr \<lparr>document_id = ''scan'', filename = ''scan.png'', num_pages = 1,
          pages = [\<lparr>page = 1, width = 30, height = 20, blocks = []\<rparr>]\<rparr>"
    by code_simp
  have p: "fst (process_pdf_to_layout_json ?e2 st0 ''doc.pdf'' (Some []) True ''en'') =
     Inr \<lparr>document_id = ''doc'', filename = ''doc.pdf'', num_pages = 1,
          pages = [\<lparr>page = 1, width = 612, height = 792, blocks = []\<rparr>]\<rparr>"
    by code_simp
  from empty_document_id_falls_back_to_stem [of ?e1 st0 "''scan.png''" True "''en''"] i
    empty_document_id_falls_back_to_stem [of ?e2 st0 "''doc.pdf''" True "''en''"] p
  show ?thesis by blast
qed

section \<open>Failures of the OCR backends\<close>

















section \<open>When OCR runs\<close>

lemma ocr_page_body_invocations:
  "ocr_invocations (snd (ocr_page_body e st pg lang)) = Suc (ocr_invocations st)"
  using ocr_page_body_states [of e st pg lang] by (auto simp: invocations_fields)

lemma ocr_page_invocations:
  "ocr_invocations (snd (ocr_page e st pg lang)) = Suc (ocr_invocations st)"
  using ocr_page_body_invocations [of e st pg lang]
  by (cases "ocr_page_body e st pg lang") (auto simp: ocr_page_def split: sum.splits)

lemma page_blocks_invocations:
  "ocr_invocations (snd (page_blocks e st en lang pg)) =
     ocr_invocations st + (if en \<and> native_blocks (get_text_blocks pg) = [] then 1 else 0)"
  using ocr_page_invocations [of e st pg lang]
  by (cases "ocr_page e st pg lang") (auto simp: page_blocks_def)

lemma process_page_invocations:
  "ocr_invocations (snd (process_page e st en lang n pg)) =
     ocr_invocations st + (if en \<and> native_blocks (get_text_blocks pg) = [] then 1 else 0)"
  using page_blocks_invocations [of e st en lang pg]
  by (cases "page_blocks e st en lang pg") (simp add: process_page_def)

lemma process_page_without_ocr:
  "\<not> (en \<and> native_blocks (get_text_blocks pg) = []) \<Longrightarrow>
     process_page e st en lang n pg =
       (\<lparr>page = n + 1, width = py_int (rect_width pg), height = py_int (rect_height pg),
         blocks = sort_key reading_key (native_blocks (get_text_blocks pg))\<rparr>, st)"
  by (auto simp: process_page_def page_blocks_def)

lemma process_pages_invocations:
  "ocr_invocations (snd (process_pages e st en lang n pgs)) =
     ocr_invocations st +
     (if en then length (filter (\<lambda>pg. native_blocks (get_text_blocks pg) = []) pgs) else 0)"
proof (induction pgs arbitrary: st n)
  case Nil
  show ?case by simp
next
  case (Cons pg pgs)
  obtain q st1 where q: "process_page e st en lang n pg = (q, st1)"
    by (cases "process_page e st en lang n pg")
  obtain qs st2 where qs: "process_pages e st1 en lang (Suc n) pgs = (qs, st2)"
    by (cases "process_pages e st1 en lang (Suc n) pgs")
  from process_page_invocations [of e st en lang n pg] q
  have 1: "ocr_invocations st1 =
     ocr_invocations st + (if en \<and> native_blocks (get_text_blocks pg) = [] then 1 else 0)"
    by simp
  from Cons.IH [of st1 "Suc n"] qs
  have 2: "ocr_invocations st2 = ocr_invocations st1 +
     (if en then length (filter (\<lambda>pg. native_blocks (get_text_blocks pg) = []) pgs) else 0)"
    by simp
  from q qs 1 2 show ?case by simp
qed

text \<open>
  C4. On a page of \<open>process_pdf_to_layout_json\<close>, \<open>_ocr_page\<close> is entered exactly when
  OCR is enabled and the native text extractor yielded no block. A page with native text
  leaves the module state, and with it the record of engine calls, untouched, and its
  blocks are the native ones; with OCR disabled a page without native text gets the empty
  block list. Over a whole document the number of OCR runs is the number of pages
  without native text when OCR is enabled, and zero otherwise.
\<close>

theorem ocr_runs_iff_enabled_and_no_native_text:
  "ocr_invocations (snd (process_page e st en lang n pg)) =
     ocr_invocations st + (if en \<and> native_blocks (get_text_blocks pg) = [] then 1 else 0) \<and>
   (native_blocks (get_text_blocks pg) \<noteq> [] \<longrightarrow>
      snd (process_page e st en lang n pg) = st \<and>
      blocks (fst (process_page e st en lang n pg)) =
        sort_key reading_key (native_blocks (get_text_blocks pg))) \<and>
   (\<not> en \<and> native_blocks (get_text_blocks pg) = [] \<longrightarrow>
      snd (process_page e st en lang n pg) = st \<and>
      blocks (fst (process_page e st en lang n pg)) = []) \<and>
   (PYMUPDF_AVAILABLE e \<and> fitz_open e path = Inr pdf_doc \<longrightarrow>
      ocr_invocations (snd (process_pdf_to_layout_json e st path did en lang)) =
        ocr_invocations st +
        (if en then length (filter (\<lambda>pg. native_blocks (get_text_blocks pg) = []) pdf_doc)
         else 0))"
proof (intro conjI impI)
  show "ocr_invocations (snd (process_page e st en lang n pg)) =
     ocr_invocations st + (if en \<and> native_blocks (get_text_blocks pg) = [] then 1 else 0)"
    by (rule process_page_invocations)
next
  assume "native_blocks (get_text_blocks pg) \<noteq> []"
  then have "\<not> (en \<and> native_blocks (get_text_blocks pg) = [])" by simp
  from process_page_without_ocr [OF this]
  show "snd (process_page e st en lang n pg) = st"
    and "blocks (fst (process_page e st en lang n pg)) =
        sort_key reading_key (native_blocks (get_text_blocks pg))"
    by simp_all
next
  assume a: "\<not> en \<and> native_blocks (get_text_blocks pg) = []"
  then have "\<not> (en \<and> native_blocks (get_text_blocks pg) = [])" by simp
  from process_page_without_ocr [OF this] a
  show "snd (process_page e st en lang n pg) = st"
    and "blocks (fst (process_page e st en lang n pg)) = []"
    by simp_all
next
  assume a: "PYMUPDF_AVAILABLE e \<and> fitz_open e path = Inr pdf_doc"
  then have "snd (process_pdf_to_layout_json e st path did en lang) =
      snd (process_pages e st en lang 0 pdf_doc)"
    by (cases "process_pages e st en lang 0 pdf_doc") (simp add: process_pdf_to_layout_json_def)
  then show "ocr_invocations (snd (process_pdf_to_layout_json e st path did en lang)) =
        ocr_invocations st +
        (if en then length (filter (\<lambda>pg. native_blocks (get_text_blocks pg) = []) pdf_doc)
         else 0)"
    by (simp only: process_pages_invocations)
qed

theorem ocr_runs_iff_enabled_and_no_native_text_witness:
  "snd (process_page (test_env True True [] (Inr (Some [Some [([(0, 0), (4, 2)], ''x'', 1)]])) (Inr []))
         st0 True ''en'' 0 (page_of [Blk 10 10 100 30 ''Hello World''])) = st0 \<and>
   blocks (fst (process_page (test_env True True [] (Inr (Some [Some [([(0, 0), (4, 2)], ''x'', 1)]])) (Inr []))
         st0 True ''en'' 0 (page_of [Blk 10 10 100 30 ''Hello World'']))) =
     [\<lparr>block_id = ''b1'', role = ''text'', bbox = (10, 10, 100, 30),
       block_text = ''Hello World'', confidence = 1\<rparr>] \<and>
   snd (process_page (test_env True True [] (Inr (Some [Some [([(0, 0), (4, 2)], ''x'', 1)]])) (Inr []))
         st0 False ''en'' 0 (page_of [])) = st0 \<and>
   blocks (fst (process_page (test_env True True [] (Inr (Some [Some [([(0, 0), (4, 2)], ''x'', 1)]])) (Inr []))
         st0 False ''en'' 0 (page_of []))) = [] \<and>
   ocr_invocations (snd (process_pdf_to_layout_json
       (test_env True True [page_of [], page_of [Blk 10 10 100 30 ''Hello World''], page_of [Short]]
          (Inr (Some [Some [([(0, 0), (4, 2)], ''x'', 1)]])) (Inr []))
       st0 ''doc.pdf'' None True ''en'')) = 2"
proof -
  let ?r = "Inr (Some [Some [([(0, 0), (4, 2)], ''x'', 1)]]) :: error + paddle_result"
  let ?e = "test_env True True [] ?r (Inr [])"
  let ?pdf = "[page_of [], page_of [Blk 10 10 100 30 ''Hello World''], page_of [Short]]"
  let ?e3 = "test_env True True ?pdf ?r (Inr [])"
  let ?pg = "page_of [Blk 10 10 100 30 ''Hello World'']"
  have nb: "native_blocks (get_text_blocks ?pg) =
     [\<lparr>block_id = ''b1'', role = ''text'', bbox = (10, 10, 100, 30),
       block_text = ''Hello World'', confidence = 1\<rparr>]"
    by code_simp
  then have h1: "native_blocks (get_text_blocks ?pg) \<noteq> []" by simp
  have h2: "\<not> False \<and> native_blocks (get_text_blocks (page_of [])) = []"
    by (simp add: page_of_def native_blocks_def)
  have h3: "PYMUPDF_AVAILABLE ?e3 \<and> fitz_open ?e3 ''doc.pdf'' = Inr ?pdf"
    by (simp add: test_env_def)
  have cnt: "length (filter (\<lambda>pg. native_blocks (get_text_blocks pg) = []) ?pdf) = 2"
    using h1 by (simp add: page_of_def native_blocks_def)
  from ocr_runs_iff_enabled_and_no_native_text [of ?e st0 True "''en''" 0 ?pg] h1 nb
  have c1: "snd (process_page ?e st0 True ''en'' 0 ?pg) = st0 \<and>
      blocks (fst (process_page ?e st0 True ''en'' 0 ?pg)) =
      [\<lparr>block_id = ''b1'', role = ''text'', bbox = (10, 10, 100, 30),
       block_text = ''Hello World'', confidence = 1\<rparr>]"
    by (simp add: sort_key_def)
  from ocr_runs_iff_enabled_and_no_native_text [of ?e st0 False "''en''" 0 "page_of []"] h2
  have c2: "snd (process_page ?e st0 False ''en'' 0 (page_of [])) = st0 \<and>
      blocks (fst (process_page ?e st0 False ''en'' 0 (page_of []))) = []"
    by blast
  have "ocr_invocations st0 = 0" by (simp add: ocr_invocations_def st0_def)
  with ocr_runs_iff_enabled_and_no_native_text [of ?e3 st0 True "''en''" 0 ?pg "''doc.pdf''" ?pdf None]
    h3 cnt
  have c3: "ocr_invocations (snd (process_pdf_to_layout_json ?e3 st0 ''doc.pdf'' None True ''en'')) = 2"
    by simp
  from c1 c2 c3 show ?thesis by blast
qed

section \<open>Reading order\<close>

lemma reading_key_le: "reading_key a \<le> reading_key b \<longleftrightarrow> reading_order a b"
  by (cases "bbox a"; cases "bbox b")
    (auto simp: reading_key_def reading_order_def top_edge_def left_edge_def)

lemma reading_key_eq:
  "reading_key a = reading_key b \<longleftrightarrow> top_edge a = top_edge b \<and> left_edge a = left_edge b"
  by (cases "bbox a"; cases "bbox b")
    (auto simp: reading_key_def top_edge_def left_edge_def)

lemma sort_reading_order: "sorted_wrt reading_order (sort_key reading_key bs)"
proof -
  have "sorted (map reading_key (sort_key reading_key bs))" by (rule sorted_sort_key)
  then show ?thesis by (simp add: sorted_map reading_key_le)
qed

lemma process_page_blocks:
  "blocks (fst (process_page e st en lang n pg)) =
     sort_key reading_key (fst (page_blocks e st en lang pg))"
  by (cases "page_blocks e st en lang pg") (simp add: process_page_def)

text \<open>
  C5. On every page that either entry point emits, the blocks are in reading order: by
  top edge, then by left edge, both ascending. The page holds exactly the extracted
  blocks, and the blocks that agree in top and left edge keep their extraction order, as
  the two blocks with box \<open>[0,10,5,20]\<close> of the specification do.
\<close>

theorem pages_in_stable_reading_order:
  "(\<forall>p \<in> set (doc_pages (fst (process_pdf_to_layout_json e st path did en lang))).
      sorted_wrt reading_order (blocks p)) \<and>
   (\<forall>p \<in> set (doc_pages (fst (process_image_to_layout_json e st path did lang))).
      sorted_wrt reading_order (blocks p)) \<and>
   mset (blocks (fst (process_page e st en lang n pg))) =
     mset (fst (page_blocks e st en lang pg)) \<and>
   filter (\<lambda>b. top_edge b = y \<and> left_edge b = x) (blocks (fst (process_page e st en lang n pg))) =
     filter (\<lambda>b. top_edge b = y \<and> left_edge b = x) (fst (page_blocks e st en lang pg)) \<and>
   (imread e path = Some img \<and> fst (image_blocks e st img lang) = Inr bs \<longrightarrow>
      (\<exists>p. doc_pages (fst (process_image_to_layout_json e st path did lang)) = [p] \<and>
           mset (blocks p) = mset bs \<and>
           filter (\<lambda>b. top_edge b = y \<and> left_edge b = x) (blocks p) =
             filter (\<lambda>b. top_edge b = y \<and> left_edge b = x) bs)) \<and>
   (bbox b1 = (0, 10, 5, 20) \<and> bbox b2 = (0, 10, 5, 20) \<longrightarrow>
      sort_key reading_key [b1, b2] = [b1, b2])"
proof (intro conjI ballI impI)
  fix p assume "p \<in> set (doc_pages (fst (process_pdf_to_layout_json e st path did en lang)))"
  from process_pdf_pages [OF this] obtain st' n' pg' where
    "p = fst (process_page e st' en lang n' pg')" by blast
  then show "sorted_wrt reading_order (blocks p)"
    by (simp add: process_page_blocks sort_reading_order)
next
  fix p assume "p \<in> set (doc_pages (fst (process_image_to_layout_json e st path did lang)))"
  from process_image_pages [OF this] obtain bs' where "blocks p = sort_key reading_key bs'"
    by blast
  then show "sorted_wrt reading_order (blocks p)" by (simp add: sort_reading_order)
next
  show "mset (blocks (fst (process_page e st en lang n pg))) =
     mset (fst (page_blocks e st en lang pg))"
    by (simp add: process_page_blocks)
next
  have "filter (\<lambda>b. reading_key b = (y, x)) (sort_key reading_key (fst (page_blocks e st en lang pg))) =
      filter (\<lambda>b. reading_key b = (y, x)) (fst (page_blocks e st en lang pg))"
    by (rule sort_key_stable)
  moreover have "(\<lambda>b. reading_key b = (y, x)) = (\<lambda>b. top_edge b = y \<and> left_edge b = x)"
    by (rule ext) (auto simp: reading_key_def top_edge_def left_edge_def split: prod.splits)
  ultimately show "filter (\<lambda>b. top_edge b = y \<and> left_edge b = x)
        (blocks (fst (process_page e st en lang n pg))) =
     filter (\<lambda>b. top_edge b = y \<and> left_edge b = x) (fst (page_blocks e st en lang pg))"
    by (simp add: process_page_blocks)
next
  assume a: "imread e path = Some img \<and> fst (image_blocks e st img lang) = Inr bs"
  have "filter (\<lambda>b. reading_key b = (y, x)) (sort_key reading_key bs) =
      filter (\<lambda>b. reading_key b = (y, x)) bs"
    by (rule sort_key_stable)
  moreover have "(\<lambda>b. reading_key b = (y, x)) = (\<lambda>b. top_edge b = y \<and> left_edge b = x)"
    by (rule ext) (auto simp: reading_key_def top_edge_def left_edge_def split: prod.splits)
  ultimately have st: "filter (\<lambda>b. top_edge b = y \<and> left_edge b = x) (sort_key reading_key bs) =
      filter (\<lambda>b. top_edge b = y \<and> left_edge b = x) bs"
    by simp
  from a have "doc_pages (fst (process_image_to_layout_json e st path did lang)) =
      [\<lparr>page = 1, width = shape_w img, height = shape_h img, blocks = sort_key reading_key bs\<rparr>]"
    by (cases "image_blocks e st img lang")
      (simp add: process_image_to_layout_json_def doc_pages_def)
  with st show "\<exists>p. doc_pages (fst (process_image_to_layout_json e st path did lang)) = [p] \<and>
           mset (blocks p) = mset bs \<and>
           filter (\<lambda>b. top_edge b = y \<and> left_edge b = x) (blocks p) =
             filter (\<lambda>b. top_edge b = y \<and> left_edge b = x) bs"
    by simp
next
  assume "bbox b1 = (0, 10, 5, 20) \<and> bbox b2 = (0, 10, 5, 20)"
  then show "sort_key reading_key [b1, b2] = [b1, b2]"
    by (simp add: sort_key_def reading_key_def)
qed


theorem pages_in_stable_reading_order_witness:
  "doc_pages (fst (process_pdf_to_layout_json
       (test_env False False
          [page_of [Blk 0 50 5 60 ''last'', Blk 0 10 5 20 ''one'', Blk 7 10 9 20 ''right'',
                    Blk 0 10 5 20 ''two'']] (Inr None) (Inr []))
       st0 ''doc.pdf'' None True ''en'')) =
     [\<lparr>page = 1, width = 612, height = 792, blocks =
        [\<lparr>block_id = ''b2'', role = ''text'', bbox = (0, 10, 5, 20), block_text = ''one'',
           confidence = 1\<rparr>,
         \<lparr>block_id = ''b4'', role = ''text'', bbox = (0, 10, 5, 20), block_text = ''two'',
           confidence = 1\<rparr>,
         \<lparr>block_id = ''b3'', role = ''text'', bbox = (7, 10, 9, 20), block_text = ''right'',
           confidence = 1\<rparr>,
         \<lparr>block_id = ''b1'', role = ''text'', bbox = (0, 50, 5, 60), block_text = ''last'',
           confidence = 1\<rparr>]\<rparr>] \<and>
   sorted_wrt reading_order
        [\<lparr>block_id = ''b2'', role = ''text'', bbox = (0, 10, 5, 20), block_text = ''one'',
           confidence = 1\<rparr>,
         \<lparr>block_id = ''b4'', role = ''text'', bbox = (0, 10, 5, 20), block_text = ''two'',
           confidence = 1\<rparr>,
         \<lparr>block_id = ''b3'', role = ''text'', bbox = (7, 10, 9, 20), block_text = ''right'',
           confidence = 1\<rparr>,
         \<lparr>block_id = ''b1'', role = ''text'', bbox = (0, 50, 5, 60), block_text = ''last'',
           confidence = 1\<rparr>] \<and>
   (\<exists>p. doc_pages (fst (process_image_to_layout_json
            (test_env True False []
               (Inr (Some [Some [([(0, 10), (5, 20)], ''one'', 1), ([(0, 10), (5, 20)], ''two'', 1)]]))
               (Inr []))
            st0 ''scan.png'' None ''en'')) = [p] \<and>
        filter (\<lambda>b. top_edge b = 10 \<and> left_edge b = 0) (blocks p) =
          [\<lparr>block_id = ''ocr1'', role = ''text'', bbox = (0, 10, 5, 20), block_text = ''one'',
             confidence = 1\<rparr>,
           \<lparr>block_id = ''ocr2'', role = ''text'', bbox = (0, 10, 5, 20), block_text = ''two'',
             confidence = 1\<rparr>]) \<and>
   sort_key reading_key
     [\<lparr>block_id = ''1'', role = ''text'', bbox = (0, 10, 5, 20), block_text = ''a'', confidence = 1\<rparr>,
      \<lparr>block_id = ''2'', role = ''text'', bbox = (0, 10, 5, 20), block_text = ''b'', confidence = 1\<rparr>] =
     [\<lparr>block_id = ''1'', role = ''text'', bbox = (0, 10, 5, 20), block_text = ''a'', confidence = 1\<rparr>,
      \<lparr>block_id = ''2'', role = ''text'', bbox = (0, 10, 5, 20), block_text = ''b'', confidence = 1\<rparr>]"
proof -
  let ?raw = "[Blk 0 50 5 60 ''last'', Blk 0 10 5 20 ''one'', Blk 7 10 9 20 ''right'',
      Blk 0 10 5 20 ''two'']"
  let ?e = "test_env False False [page_of ?raw] (Inr None) (Inr [])"
  let ?out = "[\<lparr>block_id = ''b2'', role = ''text'', bbox = (0, 10, 5, 20), block_text = ''one'',
           confidence = 1\<rparr>,
         \<lparr>block_id = ''b4'', role = ''text'', bbox = (0, 10, 5, 20), block_text = ''two'',
           confidence = 1\<rparr>,
         \<lparr>block_id = ''b3'', role = ''text'', bbox = (7, 10, 9, 20), block_text = ''right'',
           confidence = 1\<rparr>,
         \<lparr>block_id = ''b1'', role = ''text'', bbox = (0, 50, 5, 60), block_text = ''last'',
           confidence = 1\<rparr>]"
  let ?ds = "[([(0, 10), (5, 20)], ''one'', 1), ([(0, 10), (5, 20)], ''two'', 1)] :: detection list"
  let ?e2 = "test_env True False [] (Inr (Some [Some ?ds])) (Inr [])"
  let ?bs = "[\<lparr>block_id = ''ocr1'', role = ''text'', bbox = (0, 10, 5, 20), block_text = ''one'',
             confidence = 1\<rparr>,
           \<lparr>block_id = ''ocr2'', role = ''text'', bbox = (0, 10, 5, 20), block_text = ''two'',
             confidence = 1\<rparr>]"
  let ?b1 = "\<lparr>block_id = ''1'', role = ''text'', bbox = (0, 10, 5, 20), block_text = ''a'',
      confidence = 1\<rparr>"
  let ?b2 = "\<lparr>block_id = ''2'', role = ''text'', bbox = (0, 10, 5, 20), block_text = ''b'',
      confidence = 1\<rparr>"
  note main = pages_in_stable_reading_order
  have out: "doc_pages (fst (process_pdf_to_layout_json ?e st0 ''doc.pdf'' None True ''en'')) =
      [\<lparr>page = 1, width = 612, height = 792, blocks = ?out\<rparr>]"
    by code_simp
  from main [of ?e st0 "''doc.pdf''" None True "''en''"] out
  have c1: "sorted_wrt reading_order ?out" by simp
  have h: "imread ?e2 ''scan.png'' = Some img0 \<and>
      fst (image_blocks ?e2 st0 img0 ''en'') = Inr ?bs"
    by code_simp
  have f: "filter (\<lambda>b. top_edge b = 10 \<and> left_edge b = 0) ?bs = ?bs"
    by (simp add: top_edge_def left_edge_def)
  from main [of ?e2 st0 "''scan.png''" None True "''en''" 0 "page_of []" 10 0 img0 ?bs] h
  have "\<exists>p. doc_pages (fst (process_image_to_layout_json ?e2 st0 ''scan.png'' None ''en'')) = [p] \<and>
      filter (\<lambda>b. top_edge b = 10 \<and> left_edge b = 0) (blocks p) =
        filter (\<lambda>b. top_edge b = 10 \<and> left_edge b = 0) ?bs"
    by blast
  then have c2: "\<exists>p. doc_pages (fst (process_image_to_layout_json ?e2 st0 ''scan.png'' None ''en'')) = [p] \<and>
      filter (\<lambda>b. top_edge b = 10 \<and> left_edge b = 0) (blocks p) = ?bs"
    by (simp only: f)
  have hb: "bbox ?b1 = (0, 10, 5, 20) \<and> bbox ?b2 = (0, 10, 5, 20)" by simp
  from main [of ?e st0 "''doc.pdf''" None True "''en''" 0 "page_of []" 10 0 img0 ?bs ?b1 ?b2] hb
  have c3: "sort_key reading_key [?b1, ?b2] = [?b1, ?b2]" by blast
  from out c1 c2 c3 show ?thesis by blast
qed

section \<open>The native text extractor\<close>

lemma clean_lines_spec:
  "clean_lines t = filter (\<lambda>ln. ln \<noteq> []) (map strip (splitlines t))"
  by (simp add: clean_lines_def filter_map comp_def)

lemma clean_lines_nonempty: "line \<in> set (clean_lines t) \<Longrightarrow> line \<noteq> []"
  by (auto simp: clean_lines_spec)

lemma spec_cleanup_join: "spec_cleanup t = join [CHR 0x0A] (clean_lines t)"
  by (simp add: spec_cleanup_def clean_lines_spec)

lemma join_clean_lines_hd:
  assumes "clean_lines t \<noteq> []"
  shows "join sep (clean_lines t) \<noteq> []"
    and "\<not> is_space (hd (join sep (clean_lines t)))"
proof -
  from assms have "hd (clean_lines t) \<in> set (clean_lines t)" by simp
  then obtain line where ln: "hd (clean_lines t) = strip line" "strip line \<noteq> []"
    by (auto simp: clean_lines_def)
  with assms join_hd [of "clean_lines t" sep]
  have j: "join sep (clean_lines t) \<noteq> []" "hd (join sep (clean_lines t)) = hd (strip line)"
    by simp_all
  from j(1) show "join sep (clean_lines t) \<noteq> []" .
  from j(2) strip_hd [OF ln(2)] show "\<not> is_space (hd (join sep (clean_lines t)))" by simp
qed

lemma spec_cleanup_Nil: "spec_cleanup t = [] \<longleftrightarrow> clean_lines t = []"
  using join_clean_lines_hd(1) [of t "[CHR 0x0A]"] by (auto simp: spec_cleanup_join)

lemma native_block_id_unique:
  assumes "b \<in> set (native_blocks raw)" and "block_id b = ''b'' @ str_nat (k + 1)"
  shows "\<exists>x0 y0 x1 y1 t. k < length raw \<and> raw ! k = Blk x0 y0 x1 y1 t \<and> clean_lines t \<noteq> []"
proof -
  from assms(1) obtain j x0 y0 x1 y1 t where j: "j < length raw" "raw ! j = Blk x0 y0 x1 y1 t"
    "clean_lines t \<noteq> []" "block_id b = ''b'' @ str_nat (0 + j + 1)"
    unfolding native_blocks_def native_blocks_from_mem by auto
  from j(4) assms(2) have "str_nat (j + 1) = str_nat (k + 1)" by simp
  then have "j + 1 = k + 1" by (rule str_nat_inj)
  with j show ?thesis by auto
qed

text \<open>
  C7. The cleaned text that the extractor computes is the one the specification
  describes, and it is empty exactly when no line survives. A fragment at position \<open>k\<close>
  of the text layer whose cleaned text is empty yields no block; any other fragment
  yields the block \<open>b<k+1>\<close> with the cleaned text, confidence 1 and the coordinates
  truncated towards zero; and the extractor emits no other block.
\<close>

theorem native_extraction_matches_specification:
  "join [CHR 0x0A] (clean_lines s) = spec_cleanup s \<and>
   (clean_lines s = [] \<longleftrightarrow> spec_cleanup s = []) \<and>
   (\<forall>k x0 y0 x1 y1 t. k < length raw \<and> raw ! k = Blk x0 y0 x1 y1 t \<longrightarrow>
      (if spec_cleanup t = []
       then ''b'' @ str_nat (k + 1) \<notin> set (map block_id (native_blocks raw))
       else \<lparr>block_id = ''b'' @ str_nat (k + 1), role = ''text'',
              bbox = (py_int x0, py_int y0, py_int x1, py_int y1),
              block_text = spec_cleanup t, confidence = 1\<rparr> \<in> set (native_blocks raw))) \<and>
   (\<forall>b \<in> set (native_blocks raw).
      \<exists>k x0 y0 x1 y1 t. k < length raw \<and> raw ! k = Blk x0 y0 x1 y1 t \<and> spec_cleanup t \<noteq> [] \<and>
        b = \<lparr>block_id = ''b'' @ str_nat (k + 1), role = ''text'',
              bbox = (py_int x0, py_int y0, py_int x1, py_int y1),
              block_text = spec_cleanup t, confidence = 1\<rparr>) \<and>
   (0 \<le> r \<longrightarrow> py_int r = \<lfloor>r\<rfloor>) \<and> (r \<le> 0 \<longrightarrow> py_int r = \<lceil>r\<rceil>)"
proof (intro conjI allI impI ballI)
  show "join [CHR 0x0A] (clean_lines s) = spec_cleanup s" by (simp add: spec_cleanup_join)
  show "clean_lines s = [] \<longleftrightarrow> spec_cleanup s = []" by (simp add: spec_cleanup_Nil)
next
  fix k x0 y0 x1 y1 t
  assume a: "k < length raw \<and> raw ! k = Blk x0 y0 x1 y1 t"
  show "if spec_cleanup t = []
       then ''b'' @ str_nat (k + 1) \<notin> set (map block_id (native_blocks raw))
       else \<lparr>block_id = ''b'' @ str_nat (k + 1), role = ''text'',
              bbox = (py_int x0, py_int y0, py_int x1, py_int y1),
              block_text = spec_cleanup t, confidence = 1\<rparr> \<in> set (native_blocks raw)"
  proof (cases "spec_cleanup t = []")
    case True
    have "''b'' @ str_nat (k + 1) \<notin> set (map block_id (native_blocks raw))"
    proof
      assume "''b'' @ str_nat (k + 1) \<in> set (map block_id (native_blocks raw))"
      then obtain b where "b \<in> set (native_blocks raw)" "block_id b = ''b'' @ str_nat (k + 1)"
        by auto
      from native_block_id_unique [OF this] a have "clean_lines t \<noteq> []" by auto
      with True show False by (simp add: spec_cleanup_Nil)
    qed
    with True show ?thesis by simp
  next
    case False
    then have "clean_lines t \<noteq> []" by (simp add: spec_cleanup_Nil)
    with a have "\<lparr>block_id = ''b'' @ str_nat (0 + k + 1), role = ''text'',
              bbox = (py_int x0, py_int y0, py_int x1, py_int y1),
              block_text = join [CHR 0x0A] (clean_lines t), confidence = 1\<rparr>
            \<in> set (native_blocks_from 0 raw)"
      unfolding native_blocks_from_mem by blast
    with False show ?thesis by (simp add: native_blocks_def spec_cleanup_join)
  qed
next
  fix b assume "b \<in> set (native_blocks raw)"
  then obtain k x0 y0 x1 y1 t where "k < length raw" "raw ! k = Blk x0 y0 x1 y1 t"
    "clean_lines t \<noteq> []"
    "b = \<lparr>block_id = ''b'' @ str_nat (0 + k + 1), role = ''text'',
          bbox = (py_int x0, py_int y0, py_int x1, py_int y1),
          block_text = join [CHR 0x0A] (clean_lines t), confidence = 1\<rparr>"
    unfolding native_blocks_def native_blocks_from_mem by blast
  then have "k < length raw \<and> raw ! k = Blk x0 y0 x1 y1 t \<and> spec_cleanup t \<noteq> [] \<and>
        b = \<lparr>block_id = ''b'' @ str_nat (k + 1), role = ''text'',
              bbox = (py_int x0, py_int y0, py_int x1, py_int y1),
              block_text = spec_cleanup t, confidence = 1\<rparr>"
    by (simp add: spec_cleanup_join join_clean_lines_hd(1))
  then show "\<exists>k x0 y0 x1 y1 t. k < length raw \<and> raw ! k = Blk x0 y0 x1 y1 t \<and>
        spec_cleanup t \<noteq> [] \<and>
        b = \<lparr>block_id = ''b'' @ str_nat (k + 1), role = ''text'',
              bbox = (py_int x0, py_int y0, py_int x1, py_int y1),
              block_text = spec_cleanup t, confidence = 1\<rparr>"
    by blast
next
  assume "0 \<le> r" then show "py_int r = \<lfloor>r\<rfloor>" by (simp add: py_int_def)
next
  assume "r \<le> 0"
  then show "py_int r = \<lceil>r\<rceil>" by (cases "r = 0") (simp_all add: py_int_def)
qed


theorem native_extraction_matches_specification_witness:
  "\<lparr>block_id = ''b2'', role = ''text'', bbox = (10, - 3, 100, 30),
     block_text = ''Hello'' @ [CHR 0x0A] @ ''World'', confidence = 1\<rparr>
     \<in> set (native_blocks
         [Short,
          Blk (21 / 2) (- 7 / 2) 100 (61 / 2) ('' Hello '' @ [CHR 0x0A, CHR 0x0A] @ '' World '' @ [CHR 0x0D, CHR 0x0A]),
          Blk 0 0 1 1 (''  '' @ [CHR 0x0A] @ '' '')]) \<and>
   ''b3'' \<notin> set (map block_id (native_blocks
         [Short,
          Blk (21 / 2) (- 7 / 2) 100 (61 / 2) ('' Hello '' @ [CHR 0x0A, CHR 0x0A] @ '' World '' @ [CHR 0x0D, CHR 0x0A]),
          Blk 0 0 1 1 (''  '' @ [CHR 0x0A] @ '' '')])) \<and>
   py_int (- 7 / 2) = - 3 \<and> py_int (61 / 2) = 30"
proof -
  let ?t1 = "'' Hello '' @ [CHR 0x0A, CHR 0x0A] @ '' World '' @ [CHR 0x0D, CHR 0x0A]"
  let ?t2 = "''  '' @ [CHR 0x0A] @ '' ''"
  let ?raw = "[Short, Blk (21 / 2) (- 7 / 2) 100 (61 / 2) ?t1, Blk 0 0 1 1 ?t2]"
  note main = native_extraction_matches_specification
  have s1: "spec_cleanup ?t1 = ''Hello'' @ [CHR 0x0A] @ ''World''" by code_simp
  have s2: "spec_cleanup ?t2 = []" by code_simp
  have n2: "str_nat (1 + 1) = ''2''" by code_simp
  have n3: "str_nat (2 + 1) = ''3''" by code_simp
  have p1: "py_int (21 / 2) = 10" by code_simp
  have p2: "py_int (- 7 / 2) = - 3" by code_simp
  have p3: "py_int 100 = 100" by code_simp
  have p4: "py_int (61 / 2) = 30" by code_simp
  note p = p1 p2 p3 p4
  have h1: "1 < length ?raw \<and> ?raw ! 1 = Blk (21 / 2) (- 7 / 2) 100 (61 / 2) ?t1" by simp
  have h2: "2 < length ?raw \<and> ?raw ! 2 = Blk 0 0 1 1 ?t2" by simp
  note step = main [of "[]" ?raw 0, THEN conjunct2, THEN conjunct2, THEN conjunct1, rule_format]
  from step [OF h1]
  have "if spec_cleanup ?t1 = []
       then ''b'' @ str_nat (1 + 1) \<notin> set (map block_id (native_blocks ?raw))
       else \<lparr>block_id = ''b'' @ str_nat (1 + 1), role = ''text'',
              bbox = (py_int (21 / 2), py_int (- 7 / 2), py_int 100, py_int (61 / 2)),
              block_text = spec_cleanup ?t1, confidence = 1\<rparr> \<in> set (native_blocks ?raw)" .
  then have c1: "\<lparr>block_id = ''b2'', role = ''text'', bbox = (10, - 3, 100, 30),
     block_text = ''Hello'' @ [CHR 0x0A] @ ''World'', confidence = 1\<rparr> \<in> set (native_blocks ?raw)"
    by (simp only: s1 n2 p) simp
  from step [OF h2]
  have "if spec_cleanup ?t2 = []
       then ''b'' @ str_nat (2 + 1) \<notin> set (map block_id (native_blocks ?raw))
       else \<lparr>block_id = ''b'' @ str_nat (2 + 1), role = ''text'',
              bbox = (py_int 0, py_int 0, py_int 1, py_int 1),
              block_text = spec_cleanup ?t2, confidence = 1\<rparr> \<in> set (native_blocks ?raw)" .
  then have c2: "''b3'' \<notin> set (map block_id (native_blocks ?raw))"
    by (simp only: s2 n3) simp
  from c1 c2 p2 p4 show ?thesis by (intro conjI)
qed

section \<open>Block identifiers\<close>

lemma emitted_indices_Cons:
  "filter (\<lambda>k. emitted ((blk # rest) ! k)) [0..<length (blk # rest)] =
     (if emitted blk then [0] else []) @
     map Suc (filter (\<lambda>k. emitted (rest ! k)) [0..<length rest])"
proof -
  have "[0..<length (blk # rest)] = 0 # map Suc [0..<length rest]"
    by (simp add: upt_conv_Cons map_Suc_upt del: upt_Suc)
  then show ?thesis by (simp add: filter_map comp_def)
qed

lemma native_blocks_from_ids:
  "map block_id (native_blocks_from i raw) =
     map (\<lambda>k. ''b'' @ str_nat (i + k + 1)) (filter (\<lambda>k. emitted (raw ! k)) [0..<length raw])"
proof (induction raw arbitrary: i)
  case Nil
  show ?case by simp
next
  case (Cons blk rest)
  show ?case
  proof (cases blk)
    case Short
    with Cons.IH [of "Suc i"] show ?thesis
      by (simp only: emitted_indices_Cons) (simp add: comp_def)
  next
    case (Blk x0 y0 x1 y1 t)
    with Cons.IH [of "Suc i"] show ?thesis
      by (simp only: emitted_indices_Cons) (simp add: comp_def)
  qed
qed

lemma native_ids_distinct: "distinct (map block_id (native_blocks raw))"
proof -
  have "inj_on (\<lambda>k. ''b'' @ str_nat (0 + k + 1)) A" for A
    by (rule inj_onI) (auto dest: str_nat_inj)
  then show ?thesis
    unfolding native_blocks_def native_blocks_from_ids by (simp add: distinct_map)
qed

lemma ocr_blocks_from_ids:
  "ocr_blocks_from i ds = Inr bs \<Longrightarrow>
     map block_id bs = map (\<lambda>k. ''ocr'' @ str_nat (i + k + 1)) [0..<length ds]"
proof -
  assume a: "ocr_blocks_from i ds = Inr bs"
  from ocr_blocks_from_Inr [OF a] have len: "length bs = length ds"
    and nth: "\<And>k. k < length ds \<Longrightarrow> block_id (bs ! k) = ''ocr'' @ str_nat (i + k + 1)"
    by auto
  show ?thesis
    by (rule nth_equalityI) (simp_all add: len nth)
qed

lemma ocr_ids_distinct: "ocr_blocks ds = Inr bs \<Longrightarrow> distinct (map block_id bs)"
proof -
  assume "ocr_blocks ds = Inr bs"
  then have ids: "map block_id bs = map (\<lambda>k. ''ocr'' @ str_nat (0 + k + 1)) [0..<length ds]"
    unfolding ocr_blocks_def by (rule ocr_blocks_from_ids)
  have "inj_on (\<lambda>k. ''ocr'' @ str_nat (0 + k + 1)) A" for A
    by (rule inj_onI) (auto dest: str_nat_inj)
  then show ?thesis unfolding ids by (simp add: distinct_map)
qed

lemma sort_ids_distinct:
  "distinct (map block_id (sort_key reading_key bs)) \<longleftrightarrow> distinct (map block_id bs)"
  by (rule mset_eq_imp_distinct_iff) simp

lemma page_blocks_ids_distinct: "distinct (map block_id (fst (page_blocks e st en lang pg)))"
  using page_blocks_provenance [of e st en lang pg] native_ids_distinct ocr_ids_distinct
  by auto

lemma native_id_form:
  "b \<in> set (native_blocks raw) \<Longrightarrow> \<exists>n. 0 < n \<and> block_id b = ''b'' @ str_nat n"
  unfolding native_blocks_def native_blocks_from_mem by auto

lemma ocr_id_form:
  assumes "ocr_blocks ds = Inr bs" and "b \<in> set bs"
  shows "\<exists>n. 0 < n \<and> block_id b = ''ocr'' @ str_nat n"
proof -
  from assms(1) have r: "ocr_blocks_from 0 ds = Inr bs" by (simp add: ocr_blocks_def)
  from assms(2) obtain k where k: "k < length bs" "b = bs ! k" by (auto simp: in_set_conv_nth)
  with ocr_blocks_from_Inr [OF r] have "block_id b = ''ocr'' @ str_nat (0 + k + 1)" by auto
  then show ?thesis by (intro exI [of _ "k + 1"]) simp
qed

lemma ocr_blocks_texts:
  "ocr_blocks ds = Inr bs \<Longrightarrow> map block_text bs = map (\<lambda>d. fst (snd d)) ds"
proof -
  assume "ocr_blocks ds = Inr bs"
  then have r: "ocr_blocks_from 0 ds = Inr bs" by (simp add: ocr_blocks_def)
  from ocr_blocks_from_Inr [OF r] have len: "length bs = length ds"
    and nth: "\<And>k. k < length ds \<Longrightarrow> block_text (bs ! k) = fst (snd (ds ! k))"
    by auto
  show ?thesis by (rule nth_equalityI) (simp_all add: len nth)
qed

lemma ocr_blocks_confidences:
  "ocr_blocks ds = Inr bs \<Longrightarrow> map confidence bs = map (\<lambda>d. snd (snd d)) ds"
proof -
  assume "ocr_blocks ds = Inr bs"
  then have r: "ocr_blocks_from 0 ds = Inr bs" by (simp add: ocr_blocks_def)
  from ocr_blocks_from_Inr [OF r] have len: "length bs = length ds"
    and nth: "\<And>k. k < length ds \<Longrightarrow> confidence (bs ! k) = snd (snd (ds ! k))"
    by auto
  show ?thesis by (rule nth_equalityI) (simp_all add: len nth)
qed

lemma page_blocks_id_form:
  "b \<in> set (fst (page_blocks e st en lang pg)) \<Longrightarrow>
     \<exists>n. 0 < n \<and> (block_id b = ''b'' @ str_nat n \<or> block_id b = ''ocr'' @ str_nat n)"
  using page_blocks_provenance [of e st en lang pg] native_id_form ocr_id_form
  by metis

text \<open>
  C8. On every page of either entry point the block ids are pairwise different, and each
  is \<open>b<n>\<close> or \<open>ocr<n>\<close> with \<open>n \<ge> 1\<close> (\<open>ocr<n>\<close> only, for an image). Before sorting,
  the native blocks carry the ids \<open>b<k+1>\<close> of the positions \<open>k\<close> of the text layer that
  yield a block, in increasing order, and the OCR blocks carry \<open>ocr1, ocr2, \<dots>\<close> in the
  order of the engine's detections, block \<open>k\<close> holding the text of detection \<open>k\<close>.
\<close>

theorem block_ids_unique_in_extraction_order:
  "(\<forall>p \<in> set (doc_pages (fst (process_pdf_to_layout_json e st path did en lang))).
      distinct (map block_id (blocks p)) \<and>
      (\<forall>b \<in> set (blocks p).
         \<exists>n. 0 < n \<and> (block_id b = ''b'' @ str_nat n \<or> block_id b = ''ocr'' @ str_nat n))) \<and>
   (\<forall>p \<in> set (doc_pages (fst (process_image_to_layout_json e st path did lang))).
      distinct (map block_id (blocks p)) \<and>
      (\<forall>b \<in> set (blocks p). \<exists>n. 0 < n \<and> block_id b = ''ocr'' @ str_nat n)) \<and>
   map block_id (native_blocks raw) =
     map (\<lambda>k. ''b'' @ str_nat (k + 1)) (filter (\<lambda>k. emitted (raw ! k)) [0..<length raw]) \<and>
   (ocr_blocks ds = Inr bs \<longrightarrow>
      map block_id bs = map (\<lambda>k. ''ocr'' @ str_nat (k + 1)) [0..<length ds] \<and>
      map block_text bs = map (\<lambda>d. fst (snd d)) ds)"
proof (intro conjI ballI impI)
  fix p assume "p \<in> set (doc_pages (fst (process_pdf_to_layout_json e st path did en lang)))"
  from process_pdf_pages [OF this] obtain st' n' pg where
    p: "p = fst (process_page e st' en lang n' pg)" by blast
  show "distinct (map block_id (blocks p))"
    unfolding p process_page_blocks sort_ids_distinct by (rule page_blocks_ids_distinct)
  fix b assume "b \<in> set (blocks p)"
  then have "b \<in> set (fst (page_blocks e st' en lang pg))"
    by (simp add: p process_page_blocks)
  then show "\<exists>n. 0 < n \<and> (block_id b = ''b'' @ str_nat n \<or> block_id b = ''ocr'' @ str_nat n)"
    by (rule page_blocks_id_form)
next
  fix p assume "p \<in> set (doc_pages (fst (process_image_to_layout_json e st path did lang)))"
  from process_image_pages [OF this] obtain img bs' st' where
    i: "image_blocks e st img lang = (Inr bs', st')" and p: "blocks p = sort_key reading_key bs'"
    by blast
  from image_blocks_provenance [OF i] obtain ds' where ds': "ocr_blocks ds' = Inr bs'" by blast
  show "distinct (map block_id (blocks p))"
    unfolding p sort_ids_distinct using ds' by (rule ocr_ids_distinct)
  fix b assume "b \<in> set (blocks p)"
  then have "b \<in> set bs'" by (simp add: p)
  with ds' show "\<exists>n. 0 < n \<and> block_id b = ''ocr'' @ str_nat n" by (rule ocr_id_form)
next
  show "map block_id (native_blocks raw) =
     map (\<lambda>k. ''b'' @ str_nat (k + 1)) (filter (\<lambda>k. emitted (raw ! k)) [0..<length raw])"
    unfolding native_blocks_def native_blocks_from_ids by simp
next
  assume a: "ocr_blocks ds = Inr bs"
  then have "ocr_blocks_from 0 ds = Inr bs" by (simp add: ocr_blocks_def)
  from ocr_blocks_from_ids [OF this]
  show "map block_id bs = map (\<lambda>k. ''ocr'' @ str_nat (k + 1)) [0..<length ds]" by simp
  from a show "map block_text bs = map (\<lambda>d. fst (snd d)) ds" by (rule ocr_blocks_texts)
qed


theorem block_ids_unique_in_extraction_order_witness:
  "distinct (map block_id
      [\<lparr>block_id = ''b4'', role = ''text'', bbox = (0, 10, 5, 20), block_text = ''first'',
         confidence = 1\<rparr>,
       \<lparr>block_id = ''b2'', role = ''text'', bbox = (0, 50, 5, 60), block_text = ''last'',
         confidence = 1\<rparr>]) \<and>
   map block_id (native_blocks
      [Short, Blk 0 50 5 60 ''last'', Blk 0 0 1 1 '' '', Blk 0 10 5 20 ''first'']) =
     [''b2'', ''b4''] \<and>
   map block_id
      [\<lparr>block_id = ''ocr1'', role = ''text'', bbox = (0, 40, 5, 50), block_text = ''one'',
         confidence = 1 / 2\<rparr>,
       \<lparr>block_id = ''ocr2'', role = ''text'', bbox = (0, 10, 5, 20), block_text = ''two'',
         confidence = 1\<rparr>] = [''ocr1'', ''ocr2''] \<and>
   map block_text
      [\<lparr>block_id = ''ocr1'', role = ''text'', bbox = (0, 40, 5, 50), block_text = ''one'',
         confidence = 1 / 2\<rparr>,
       \<lparr>block_id = ''ocr2'', role = ''text'', bbox = (0, 10, 5, 20), block_text = ''two'',
         confidence = 1\<rparr>] = [''one'', ''two'']"
proof -
  let ?raw = "[Short, Blk 0 50 5 60 ''last'', Blk 0 0 1 1 '' '', Blk 0 10 5 20 ''first'']"
  let ?e = "test_env False False [page_of ?raw] (Inr None) (Inr [])"
  let ?out = "[\<lparr>block_id = ''b4'', role = ''text'', bbox = (0, 10, 5, 20), block_text = ''first'',
         confidence = 1\<rparr>,
       \<lparr>block_id = ''b2'', role = ''text'', bbox = (0, 50, 5, 60), block_text = ''last'',
         confidence = 1\<rparr>]"
  let ?p = "\<lparr>page = 1, width = 612, height = 792, blocks = ?out\<rparr>"
  let ?ds = "[([(0, 40), (5, 50)], ''one'', 1 / 2), ([(0, 10), (5, 20)], ''two'', 1)] :: detection list"
  let ?bs = "[\<lparr>block_id = ''ocr1'', role = ''text'', bbox = (0, 40, 5, 50), block_text = ''one'',
         confidence = 1 / 2\<rparr>,
       \<lparr>block_id = ''ocr2'', role = ''text'', bbox = (0, 10, 5, 20), block_text = ''two'',
         confidence = 1\<rparr>]"
  note main = block_ids_unique_in_extraction_order [of ?e st0 "''doc.pdf''" None True "''en''" ?raw ?ds ?bs]
  have out: "doc_pages (fst (process_pdf_to_layout_json ?e st0 ''doc.pdf'' None True ''en'')) = [?p]"
    by code_simp
  then have mem: "?p \<in> set (doc_pages (fst (process_pdf_to_layout_json ?e st0 ''doc.pdf'' None True ''en'')))"
    by simp
  from main [THEN conjunct1, rule_format, OF mem, THEN conjunct1]
  have c1: "distinct (map block_id ?out)" by simp
  have idx: "map (\<lambda>k. ''b'' @ str_nat (k + 1)) (filter (\<lambda>k. emitted (?raw ! k)) [0..<length ?raw]) =
      [''b2'', ''b4'']"
    by code_simp
  from main [THEN conjunct2, THEN conjunct2, THEN conjunct1]
  have c2: "map block_id (native_blocks ?raw) = [''b2'', ''b4'']" by (simp only: idx)
  have h: "ocr_blocks ?ds = Inr ?bs" by code_simp
  have idx2: "map (\<lambda>k. ''ocr'' @ str_nat (k + 1)) [0..<length ?ds] = [''ocr1'', ''ocr2'']"
    by code_simp
  have texts: "map (\<lambda>d. fst (snd d)) ?ds = [''one'', ''two'']" by simp
  from main [THEN conjunct2, THEN conjunct2, THEN conjunct2, rule_format, OF h]
  have c3: "map block_id ?bs = [''ocr1'', ''ocr2'']" and c4: "map block_text ?bs = [''one'', ''two'']"
    by (simp_all only: idx2 texts)
  from c1 c2 c3 c4 show ?thesis by (intro conjI)
qed

section \<open>Where an emitted block comes from\<close>

lemma ocr_block_detection:
  assumes "ocr_blocks ds = Inr bs" and "b \<in> set bs"
  shows "\<exists>pts t c bb n. (pts, t, c) \<in> set ds \<and> points_bbox pts = Inr bb \<and> 0 < n \<and>
           b = \<lparr>block_id = ''ocr'' @ str_nat n, role = ''text'', bbox = bb,
                 block_text = t, confidence = c\<rparr>"
proof -
  from assms(1) have r: "ocr_blocks_from 0 ds = Inr bs" by (simp add: ocr_blocks_def)
  from ocr_blocks_from_Inr [OF r] have len: "length bs = length ds" by simp
  from assms(2) obtain k where k: "k < length bs" "b = bs ! k" by (auto simp: in_set_conv_nth)
  with len have kd: "k < length ds" by simp
  with ocr_blocks_from_Inr [OF r] obtain bb where bb: "points_bbox (fst (ds ! k)) = Inr bb"
    "bs ! k = \<lparr>block_id = ''ocr'' @ str_nat (0 + k + 1), role = ''text'', bbox = bb,
          block_text = fst (snd (ds ! k)), confidence = snd (snd (ds ! k))\<rparr>"
    by blast
  obtain pts t c where d: "ds ! k = (pts, t, c)" by (cases "ds ! k") auto
  with kd have "(pts, t, c) \<in> set ds" by (metis nth_mem)
  moreover from bb d k have "points_bbox pts = Inr bb"
    "b = \<lparr>block_id = ''ocr'' @ str_nat (k + 1), role = ''text'', bbox = bb,
          block_text = t, confidence = c\<rparr>" by simp_all
  ultimately show ?thesis by (intro exI [of _ "k + 1"] exI conjI) simp_all
qed

lemma pdf_block_provenance:
  assumes "b \<in> set (doc_blocks (fst (process_pdf_to_layout_json e st path did en lang)))"
  shows "(\<exists>pdf_doc pg. fitz_open e path = Inr pdf_doc \<and> pg \<in> set pdf_doc \<and>
            b \<in> set (native_blocks (get_text_blocks pg))) \<or>
         (\<exists>ds bs. ocr_blocks ds = Inr bs \<and> set ds \<subseteq> engine_detections e \<and> b \<in> set bs)"
proof -
  from assms obtain p where p: "p \<in> set (doc_pages (fst (process_pdf_to_layout_json e st path did en lang)))"
    and b: "b \<in> set (blocks p)" by (auto simp: doc_blocks_def)
  from process_pdf_pages [OF p] obtain pdf_doc st' n' pg where o: "fitz_open e path = Inr pdf_doc"
    "pg \<in> set pdf_doc" "p = fst (process_page e st' en lang n' pg)" by blast
  from b o(3) have m: "b \<in> set (fst (page_blocks e st' en lang pg))"
    by (simp add: process_page_blocks)
  from page_blocks_provenance [of e st' en lang pg] show ?thesis
  proof
    assume "fst (page_blocks e st' en lang pg) = native_blocks (get_text_blocks pg)"
    with m o show ?thesis by auto
  next
    assume "native_blocks (get_text_blocks pg) = [] \<and> en \<and>
      (\<exists>ds. ocr_blocks ds = Inr (fst (page_blocks e st' en lang pg)) \<and> set ds \<subseteq> engine_detections e)"
    with m show ?thesis by blast
  qed
qed

lemma image_block_provenance:
  assumes "b \<in> set (doc_blocks (fst (process_image_to_layout_json e st path did lang)))"
  shows "\<exists>ds bs. ocr_blocks ds = Inr bs \<and> set ds \<subseteq> engine_detections e \<and> b \<in> set bs"
proof -
  from assms obtain p where p: "p \<in> set (doc_pages (fst (process_image_to_layout_json e st path did lang)))"
    and b: "b \<in> set (blocks p)" by (auto simp: doc_blocks_def)
  from process_image_pages [OF p] obtain img bs st' where
    i: "image_blocks e st img lang = (Inr bs, st')" and s: "blocks p = sort_key reading_key bs"
    by blast
  from b s have "b \<in> set bs" by simp
  with image_blocks_provenance [OF i] show ?thesis by blast
qed

lemma native_block_fields:
  "b \<in> set (native_blocks raw) \<Longrightarrow>
     \<exists>k x0 y0 x1 y1 t. k < length raw \<and> raw ! k = Blk x0 y0 x1 y1 t \<and> clean_lines t \<noteq> [] \<and>
        b = \<lparr>block_id = ''b'' @ str_nat (k + 1), role = ''text'',
              bbox = (py_int x0, py_int y0, py_int x1, py_int y1),
              block_text = join [CHR 0x0A] (clean_lines t), confidence = 1\<rparr>"
  unfolding native_blocks_def native_blocks_from_mem by simp

lemma not_blank_hd: "s \<noteq> [] \<Longrightarrow> \<not> is_space (hd s) \<Longrightarrow> \<not> blank s"
  by (cases s) (simp_all add: blank_def)

lemma native_text_not_blank: "b \<in> set (native_blocks raw) \<Longrightarrow> \<not> blank (block_text b)"
proof -
  assume "b \<in> set (native_blocks raw)"
  from native_block_fields [OF this] obtain t where "clean_lines t \<noteq> []"
    "block_text b = join [CHR 0x0A] (clean_lines t)" by auto
  with join_clean_lines_hd [of t "[CHR 0x0A]"] show ?thesis by (simp add: not_blank_hd)
qed

lemma engine_detections_test_env:
  "engine_detections (test_env pa ea pdf (Inr r) (Inr ds)) =
     (case result0 r of Some ds' \<Rightarrow> set ds' | None \<Rightarrow> {}) \<union> set ds"
  by (auto simp: engine_detections_def test_env_def split: option.splits)

section \<open>Block texts\<close>

text \<open>
  C1, as stated, fails for OCR-derived blocks: a detection whose text is empty is emitted
  as a block with empty text.
\<close>

theorem ocr_block_with_empty_text_is_emitted:
  "fst (process_image_to_layout_json
          (test_env False True [] (Inr None) (Inr [([(0, 0), (4, 2)], [], 9 / 10)]))
          st0 ''scan.png'' None ''en'') =
     Inr \<lparr>document_id = ''scan'', filename = ''scan.png'', num_pages = 1,
          pages = [\<lparr>page = 1, width = 30, height = 20,
                    blocks = [\<lparr>block_id = ''ocr1'', role = ''text'', bbox = (0, 0, 4, 2),
                               block_text = [], confidence = 9 / 10\<rparr>]\<rparr>]\<rparr> \<and>
   blank []"
proof -
  have "fst (process_image_to_layout_json
          (test_env False True [] (Inr None) (Inr [([(0, 0), (4, 2)], [], 9 / 10)]))
          st0 ''scan.png'' None ''en'') =
     Inr \<lparr>document_id = ''scan'', filename = ''scan.png'', num_pages = 1,
          pages = [\<lparr>page = 1, width = 30, height = 20,
                    blocks = [\<lparr>block_id = ''ocr1'', role = ''text'', bbox = (0, 0, 4, 2),
                               block_text = [], confidence = 9 / 10\<rparr>]\<rparr>]\<rparr>"
    by code_simp
  moreover have "blank []" by (simp add: blank_def)
  ultimately show ?thesis by (rule conjI)
qed

text \<open>
  C1, amended. The text of every native-text block is neither empty nor whitespace-only:
  a fragment without content is dropped during extraction. An OCR-derived block carries
  the text of its detection unchanged and unfiltered. So every block that either entry
  point emits has a text that is neither empty nor whitespace-only, provided that no
  detection returned by the engines has such a text.
\<close>

theorem emitted_text_not_blank:
  "(\<forall>b \<in> set (native_blocks raw). \<not> blank (block_text b)) \<and>
   (\<forall>b \<in> set (doc_blocks (fst (process_pdf_to_layout_json e st path did en lang))).
      \<not> blank (block_text b) \<or> (\<exists>d \<in> engine_detections e. block_text b = fst (snd d))) \<and>
   (\<forall>b \<in> set (doc_blocks (fst (process_image_to_layout_json e st path did lang))).
      \<exists>d \<in> engine_detections e. block_text b = fst (snd d)) \<and>
   ((\<forall>d \<in> engine_detections e. \<not> blank (fst (snd d))) \<longrightarrow>
      (\<forall>b \<in> set (doc_blocks (fst (process_pdf_to_layout_json e st path did en lang))).
         \<not> blank (block_text b)) \<and>
      (\<forall>b \<in> set (doc_blocks (fst (process_image_to_layout_json e st path did lang))).
         \<not> blank (block_text b)))"
proof -
  have ocr: "\<exists>d \<in> engine_detections e. block_text b = fst (snd d)"
    if "ocr_blocks ds = Inr bs" "set ds \<subseteq> engine_detections e" "b \<in> set bs" for ds bs b
  proof -
    from ocr_block_detection [OF that(1) that(3)] obtain pts t c where
      "(pts, t, c) \<in> set ds" "block_text b = t" by auto
    with that(2) show ?thesis by force
  qed
  have pdf: "\<not> blank (block_text b) \<or> (\<exists>d \<in> engine_detections e. block_text b = fst (snd d))"
    if "b \<in> set (doc_blocks (fst (process_pdf_to_layout_json e st path did en lang)))" for b
    using pdf_block_provenance [OF that] native_text_not_blank ocr by blast
  have img: "\<exists>d \<in> engine_detections e. block_text b = fst (snd d)"
    if "b \<in> set (doc_blocks (fst (process_image_to_layout_json e st path did lang)))" for b
    using image_block_provenance [OF that] ocr by blast
  show ?thesis
  proof (intro conjI ballI impI)
    fix b assume "b \<in> set (native_blocks raw)"
    then show "\<not> blank (block_text b)" by (rule native_text_not_blank)
  next
    fix b assume "b \<in> set (doc_blocks (fst (process_pdf_to_layout_json e st path did en lang)))"
    then show "\<not> blank (block_text b) \<or> (\<exists>d \<in> engine_detections e. block_text b = fst (snd d))"
      by (rule pdf)
  next
    fix b assume "b \<in> set (doc_blocks (fst (process_image_to_layout_json e st path did lang)))"
    then show "\<exists>d \<in> engine_detections e. block_text b = fst (snd d)" by (rule img)
  next
    fix b assume h: "\<forall>d \<in> engine_detections e. \<not> blank (fst (snd d))"
      and "b \<in> set (doc_blocks (fst (process_pdf_to_layout_json e st path did en lang)))"
    from pdf [OF this(2)] h show "\<not> blank (block_text b)" by auto
  next
    fix b assume h: "\<forall>d \<in> engine_detections e. \<not> blank (fst (snd d))"
      and "b \<in> set (doc_blocks (fst (process_image_to_layout_json e st path did lang)))"
    from img [OF this(2)] h show "\<not> blank (block_text b)" by auto
  qed
qed


theorem emitted_text_not_blank_witness:
  "\<not> blank (block_text \<lparr>block_id = ''b1'', role = ''text'', bbox = (10, 10, 100, 30),
       block_text = ''Hello World'', confidence = 1\<rparr>) \<and>
   \<not> blank (block_text \<lparr>block_id = ''ocr1'', role = ''text'', bbox = (0, 0, 4, 2),
       block_text = ''scan text'', confidence = 9 / 10\<rparr>) \<and>
   doc_blocks (fst (process_pdf_to_layout_json
       (test_env True False [page_of [Blk 10 10 100 30 ''Hello World''], page_of []]
          (Inr (Some [Some [([(0, 0), (4, 2)], ''scan text'', 9 / 10)]])) (Inr []))
       st0 ''doc.pdf'' None True ''en'')) =
     [\<lparr>block_id = ''b1'', role = ''text'', bbox = (10, 10, 100, 30),
       block_text = ''Hello World'', confidence = 1\<rparr>,
      \<lparr>block_id = ''ocr1'', role = ''text'', bbox = (0, 0, 4, 2),
       block_text = ''scan text'', confidence = 9 / 10\<rparr>]"
proof -
  let ?d = "([(0, 0), (4, 2)], ''scan text'', 9 / 10) :: detection"
  let ?e = "test_env True False [page_of [Blk 10 10 100 30 ''Hello World''], page_of []]
      (Inr (Some [Some [?d]])) (Inr [])"
  let ?b1 = "\<lparr>block_id = ''b1'', role = ''text'', bbox = (10, 10, 100, 30),
       block_text = ''Hello World'', confidence = 1\<rparr>"
  let ?b2 = "\<lparr>block_id = ''ocr1'', role = ''text'', bbox = (0, 0, 4, 2),
       block_text = ''scan text'', confidence = 9 / 10\<rparr>"
  note main = emitted_text_not_blank [of "[]" ?e st0 "''doc.pdf''" None True "''en''"]
  have out: "doc_blocks (fst (process_pdf_to_layout_json ?e st0 ''doc.pdf'' None True ''en'')) =
      [?b1, ?b2]"
    by code_simp
  have nb: "\<not> blank ''scan text''" by code_simp
  have ed: "engine_detections ?e = {?d}" by (simp add: engine_detections_test_env)
  have h: "\<forall>d \<in> engine_detections ?e. \<not> blank (fst (snd d))"
    unfolding ed using nb by simp
  from main [THEN conjunct2, THEN conjunct2, THEN conjunct2, THEN mp, OF h, THEN conjunct1]
  have all: "\<forall>b \<in> set [?b1, ?b2]. \<not> blank (block_text b)"
    unfolding out .
  from all have c1: "\<not> blank (block_text ?b1)" and c2: "\<not> blank (block_text ?b2)"
    by simp_all
  from c1 c2 out show ?thesis by (intro conjI)
qed

section \<open>Confidence\<close>

lemma native_confidence: "b \<in> set (native_blocks raw) \<Longrightarrow> confidence b = 1"
  using native_block_fields [of b raw] by auto

lemma ocr_block_not_b:
  "ocr_blocks ds = Inr bs \<Longrightarrow> b \<in> set bs \<Longrightarrow> take 1 (block_id b) \<noteq> ''b''"
  using ocr_block_detection [of ds bs b] by auto

lemma ocr_block_confidence:
  assumes "ocr_blocks ds = Inr bs" and "set ds \<subseteq> engine_detections e" and "b \<in> set bs"
  shows "\<exists>d \<in> engine_detections e. confidence b = snd (snd d)"
proof -
  from ocr_block_detection [OF assms(1) assms(3)] obtain pts t c where
    "(pts, t, c) \<in> set ds" "confidence b = c" by auto
  with assms(2) show ?thesis by force
qed

text \<open>
  C3, as stated, fails for OCR-derived blocks: the score of a detection is emitted as it
  is, also when it lies outside the unit interval.
\<close>

theorem ocr_score_above_one_is_emitted:
  "map confidence (doc_blocks (fst (process_image_to_layout_json
       (test_env True False [] (Inr (Some [Some [([(0, 0), (4, 2)], ''x'', 3 / 2)]])) (Inr []))
       st0 ''scan.png'' None ''en''))) = [3 / 2] \<and> (1 :: rat) < 3 / 2"
proof -
  have "map confidence (doc_blocks (fst (process_image_to_layout_json
       (test_env True False [] (Inr (Some [Some [([(0, 0), (4, 2)], ''x'', 3 / 2)]])) (Inr []))
       st0 ''scan.png'' None ''en''))) = [3 / 2]"
    by code_simp
  moreover have "(1 :: rat) < 3 / 2" by simp
  ultimately show ?thesis by (rule conjI)
qed

text \<open>
  C3, amended. Every native-text block, and so every block of a PDF result whose id
  begins with \<open>b\<close>, has confidence exactly 1. An OCR-derived block carries the score of
  its detection unchanged; the module does not clamp it. So every block that either entry
  point emits has a confidence between 0 and 1, provided that every score the engines
  report lies between 0 and 1.
\<close>

theorem confidence_of_emitted_blocks:
  "(\<forall>b \<in> set (native_blocks raw). confidence b = 1) \<and>
   (\<forall>b \<in> set (doc_blocks (fst (process_pdf_to_layout_json e st path did en lang))).
      take 1 (block_id b) = ''b'' \<longrightarrow> confidence b = 1) \<and>
   (ocr_blocks ds = Inr bs \<longrightarrow> map confidence bs = map (\<lambda>d. snd (snd d)) ds) \<and>
   ((\<forall>d \<in> engine_detections e. 0 \<le> snd (snd d) \<and> snd (snd d) \<le> 1) \<longrightarrow>
      (\<forall>b \<in> set (doc_blocks (fst (process_pdf_to_layout_json e st path did en lang))).
         0 \<le> confidence b \<and> confidence b \<le> 1) \<and>
      (\<forall>b \<in> set (doc_blocks (fst (process_image_to_layout_json e st path did lang))).
         0 \<le> confidence b \<and> confidence b \<le> 1))"
proof -
  have pdf: "confidence b = 1 \<or>
      (take 1 (block_id b) \<noteq> ''b'' \<and> (\<exists>d \<in> engine_detections e. confidence b = snd (snd d)))"
    if "b \<in> set (doc_blocks (fst (process_pdf_to_layout_json e st path did en lang)))" for b
    using pdf_block_provenance [OF that] native_confidence ocr_block_not_b ocr_block_confidence
    by blast
  have img: "\<exists>d \<in> engine_detections e. confidence b = snd (snd d)"
    if "b \<in> set (doc_blocks (fst (process_image_to_layout_json e st path did lang)))" for b
    using image_block_provenance [OF that] ocr_block_confidence by blast
  show ?thesis
  proof (intro conjI ballI impI)
    fix b assume "b \<in> set (native_blocks raw)"
    then show "confidence b = 1" by (rule native_confidence)
  next
    fix b assume "b \<in> set (doc_blocks (fst (process_pdf_to_layout_json e st path did en lang)))"
      and "take 1 (block_id b) = ''b''"
    with pdf show "confidence b = 1" by blast
  next
    assume "ocr_blocks ds = Inr bs"
    then show "map confidence bs = map (\<lambda>d. snd (snd d)) ds" by (rule ocr_blocks_confidences)
  next
    fix b assume h: "\<forall>d \<in> engine_detections e. 0 \<le> snd (snd d) \<and> snd (snd d) \<le> 1"
      and "b \<in> set (doc_blocks (fst (process_pdf_to_layout_json e st path did en lang)))"
    from pdf [OF this(2)] h show "0 \<le> confidence b" and "confidence b \<le> 1" by auto
  next
    fix b assume h: "\<forall>d \<in> engine_detections e. 0 \<le> snd (snd d) \<and> snd (snd d) \<le> 1"
      and "b \<in> set (doc_blocks (fst (process_image_to_layout_json e st path did lang)))"
    from img [OF this(2)] h show "0 \<le> confidence b" and "confidence b \<le> 1" by auto
  qed
qed

theorem confidence_of_emitted_blocks_witness:
  "confidence \<lparr>block_id = ''b1'', role = ''text'', bbox = (10, 10, 100, 30),
       block_text = ''Hello World'', confidence = 1\<rparr> = 1 \<and>
   0 \<le> confidence \<lparr>block_id = ''ocr1'', role = ''text'', bbox = (0, 0, 4, 2),
       block_text = ''scan text'', confidence = 9 / 10\<rparr> \<and>
   confidence \<lparr>block_id = ''ocr1'', role = ''text'', bbox = (0, 0, 4, 2),
       block_text = ''scan text'', confidence = 9 / 10\<rparr> \<le> 1 \<and>
   map confidence [\<lparr>block_id = ''ocr1'', role = ''text'', bbox = (0, 0, 4, 2),
       block_text = ''scan text'', confidence = 9 / 10\<rparr>] = [9 / 10] \<and>
   doc_blocks (fst (process_pdf_to_layout_json
       (test_env True False [page_of [Blk 10 10 100 30 ''Hello World''], page_of []]
          (Inr (Some [Some [([(0, 0), (4, 2)], ''scan text'', 9 / 10)]])) (Inr []))
       st0 ''doc.pdf'' None True ''en'')) =
     [\<lparr>block_id = ''b1'', role = ''text'', bbox = (10, 10, 100, 30),
       block_text = ''Hello World'', confidence = 1\<rparr>,
      \<lparr>block_id = ''ocr1'', role = ''text'', bbox = (0, 0, 4, 2),
       block_text = ''scan text'', confidence = 9 / 10\<rparr>]"
proof -
  let ?d = "([(0, 0), (4, 2)], ''scan text'', 9 / 10) :: detection"
  let ?e = "test_env True False [page_of [Blk 10 10 100 30 ''Hello World''], page_of []]
      (Inr (Some [Some [?d]])) (Inr [])"
  let ?b1 = "\<lparr>block_id = ''b1'', role = ''text'', bbox = (10, 10, 100, 30),
       block_text = ''Hello World'', confidence = 1\<rparr>"
  let ?b2 = "\<lparr>block_id = ''ocr1'', role = ''text'', bbox = (0, 0, 4, 2),
       block_text = ''scan text'', confidence = 9 / 10\<rparr>"
  note main = confidence_of_emitted_blocks [of "[]" ?e st0 "''doc.pdf''" None True "''en''"
      "[?d]" "[?b2]"]
  have out: "doc_blocks (fst (process_pdf_to_layout_json ?e st0 ''doc.pdf'' None True ''en'')) =
      [?b1, ?b2]"
    by code_simp
  have ed: "engine_detections ?e = {?d}" by (simp add: engine_detections_test_env)
  have h: "\<forall>d \<in> engine_detections ?e. 0 \<le> snd (snd d) \<and> snd (snd d) \<le> 1"
    unfolding ed by simp
  from main [THEN conjunct2, THEN conjunct2, THEN conjunct2, THEN mp, OF h, THEN conjunct1]
  have all: "\<forall>b \<in> set [?b1, ?b2]. 0 \<le> confidence b \<and> confidence b \<le> 1"
    unfolding out .
  then have c2: "0 \<le> confidence ?b2" and c3: "confidence ?b2 \<le> 1" by simp_all
  from main [THEN conjunct2, THEN conjunct1] have "\<forall>b \<in> set [?b1, ?b2].
      take 1 (block_id b) = ''b'' \<longrightarrow> confidence b = 1"
    unfolding out .
  then have c1: "confidence ?b1 = 1" by simp
  have o: "ocr_blocks [?d] = Inr [?b2]" by code_simp
  from main [THEN conjunct2, THEN conjunct2, THEN conjunct1, THEN mp, OF o]
  have c4: "map confidence [?b2] = [9 / 10]" by simp
  from c1 c2 c3 c4 out show ?thesis by (intro conjI)
qed

section \<open>Bounding boxes\<close>

lemma ocr_block_bbox_ok: "ocr_blocks ds = Inr bs \<Longrightarrow> b \<in> set bs \<Longrightarrow> bbox_ok b"
proof -
  assume "ocr_blocks ds = Inr bs" "b \<in> set bs"
  from ocr_block_detection [OF this] obtain pts bb where bb: "points_bbox pts = Inr bb"
    "bbox b = bb" by auto
  obtain x0 y0 x1 y1 where "bb = (x0, y0, x1, y1)" by (cases bb) auto
  with bb points_bbox_ordered [of pts x0 y0 x1 y1] show ?thesis by (simp add: bbox_ok_def)
qed

lemma native_block_bbox_ok:
  assumes "b \<in> set (native_blocks raw)" and "\<forall>blk \<in> set raw. rect_ok blk"
  shows "bbox_ok b"
proof -
  from native_block_fields [OF assms(1)] obtain k x0 y0 x1 y1 t where k: "k < length raw"
    "raw ! k = Blk x0 y0 x1 y1 t" "bbox b = (py_int x0, py_int y0, py_int x1, py_int y1)"
    by auto
  from k(1) have "raw ! k \<in> set raw" by simp
  with assms(2) k(2) have "x0 \<le> x1 \<and> y0 \<le> y1" by (metis rect_ok.simps(2))
  with k(3) show ?thesis by (simp add: bbox_ok_def py_int_mono)
qed

text \<open>
  C6, as stated, fails for native-text blocks: the coordinates of a fragment are
  truncated one by one and emitted in the order the text layer gives them, so a fragment
  reported with \<open>x0 > x1\<close> yields a block with \<open>x0 > x1\<close>.
\<close>

theorem native_bbox_follows_text_layer:
  "map bbox (doc_blocks (fst (process_pdf_to_layout_json
       (test_env False False [page_of [Blk 10 10 5 5 ''a'']] (Inr None) (Inr []))
       st0 ''doc.pdf'' None True ''en''))) = [(10, 10, 5, 5)] \<and>
   \<not> bbox_ok \<lparr>block_id = ''b1'', role = ''text'', bbox = (10, 10, 5, 5), block_text = ''a'',
       confidence = 1\<rparr>"
proof -
  have "map bbox (doc_blocks (fst (process_pdf_to_layout_json
       (test_env False False [page_of [Blk 10 10 5 5 ''a'']] (Inr None) (Inr []))
       st0 ''doc.pdf'' None True ''en''))) = [(10, 10, 5, 5)]"
    by code_simp
  moreover have "\<not> bbox_ok \<lparr>block_id = ''b1'', role = ''text'', bbox = (10, 10, 5, 5),
       block_text = ''a'', confidence = 1\<rparr>"
    by (simp add: bbox_ok_def)
  ultimately show ?thesis by (rule conjI)
qed

text \<open>
  C6, amended. The box of every emitted block is four integers. For an OCR-derived block,
  and so for every block of an image result, they are the truncated minima and maxima
  of the polygon's coordinates and satisfy \<open>x0 \<le> x1\<close> and \<open>y0 \<le> y1\<close>. For a native-text
  block they are the truncated coordinates of the fragment, in the fragment's order;
  every block of a PDF result satisfies \<open>x0 \<le> x1\<close> and \<open>y0 \<le> y1\<close> provided every
  fragment of the text layer does.
\<close>

theorem bbox_of_emitted_blocks:
  "(ocr_blocks ds = Inr bs \<longrightarrow> (\<forall>b \<in> set bs. bbox_ok b)) \<and>
   (\<forall>b \<in> set (doc_blocks (fst (process_image_to_layout_json e st path did lang))). bbox_ok b) \<and>
   ((\<forall>blk \<in> set raw. rect_ok blk) \<longrightarrow> (\<forall>b \<in> set (native_blocks raw). bbox_ok b)) \<and>
   ((\<forall>pdf_doc. fitz_open e path = Inr pdf_doc \<longrightarrow>
       (\<forall>pg \<in> set pdf_doc. \<forall>blk \<in> set (get_text_blocks pg). rect_ok blk)) \<longrightarrow>
    (\<forall>b \<in> set (doc_blocks (fst (process_pdf_to_layout_json e st path did en lang))). bbox_ok b))"
proof (intro conjI ballI impI)
  fix b assume "ocr_blocks ds = Inr bs" "b \<in> set bs"
  then show "bbox_ok b" by (rule ocr_block_bbox_ok)
next
  fix b assume "b \<in> set (doc_blocks (fst (process_image_to_layout_json e st path did lang)))"
  from image_block_provenance [OF this] show "bbox_ok b" using ocr_block_bbox_ok by blast
next
  fix b assume "\<forall>blk \<in> set raw. rect_ok blk" "b \<in> set (native_blocks raw)"
  then show "bbox_ok b" using native_block_bbox_ok by blast
next
  fix b assume h: "\<forall>pdf_doc. fitz_open e path = Inr pdf_doc \<longrightarrow>
       (\<forall>pg \<in> set pdf_doc. \<forall>blk \<in> set (get_text_blocks pg). rect_ok blk)"
    and "b \<in> set (doc_blocks (fst (process_pdf_to_layout_json e st path did en lang)))"
  from pdf_block_provenance [OF this(2)] show "bbox_ok b"
  proof
    assume "\<exists>pdf_doc pg. fitz_open e path = Inr pdf_doc \<and> pg \<in> set pdf_doc \<and>
            b \<in> set (native_blocks (get_text_blocks pg))"
    then obtain pdf_doc pg where o: "fitz_open e path = Inr pdf_doc" "pg \<in> set pdf_doc"
      "b \<in> set (native_blocks (get_text_blocks pg))" by blast
    with h have "\<forall>blk \<in> set (get_text_blocks pg). rect_ok blk" by blast
    with o(3) show ?thesis by (rule native_block_bbox_ok)
  next
    assume "\<exists>ds bs. ocr_blocks ds = Inr bs \<and> set ds \<subseteq> engine_detections e \<and> b \<in> set bs"
    then show ?thesis using ocr_block_bbox_ok by blast
  qed
qed

theorem bbox_of_emitted_blocks_witness:
  "bbox_ok \<lparr>block_id = ''ocr1'', role = ''text'', bbox = (- 1, 1, 5, 9),
       block_text = ''tilted'', confidence = 9 / 10\<rparr> \<and>
   bbox_ok \<lparr>block_id = ''b1'', role = ''text'', bbox = (10, 10, 100, 30),
       block_text = ''Hello World'', confidence = 1\<rparr> \<and>
   doc_blocks (fst (process_pdf_to_layout_json
       (test_env True False
          [page_of [Blk (21 / 2) (21 / 2) (201 / 2) (61 / 2) ''Hello World''], page_of []]
          (Inr (Some [Some [([(1 / 2, 3 / 2), (11 / 2, 1), (5, 19 / 2), (- 3 / 2, 9)], ''tilted'',
             9 / 10)]])) (Inr []))
       st0 ''doc.pdf'' None True ''en'')) =
     [\<lparr>block_id = ''b1'', role = ''text'', bbox = (10, 10, 100, 30),
       block_text = ''Hello World'', confidence = 1\<rparr>,
      \<lparr>block_id = ''ocr1'', role = ''text'', bbox = (- 1, 1, 5, 9),
       block_text = ''tilted'', confidence = 9 / 10\<rparr>]"
proof -
  let ?d = "([(1 / 2, 3 / 2), (11 / 2, 1), (5, 19 / 2), (- 3 / 2, 9)], ''tilted'', 9 / 10) :: detection"
  let ?raw = "[Blk (21 / 2) (21 / 2) (201 / 2) (61 / 2) ''Hello World'']"
  let ?pdf = "[page_of ?raw, page_of []]"
  let ?e = "test_env True False ?pdf (Inr (Some [Some [?d]])) (Inr [])"
  let ?b1 = "\<lparr>block_id = ''b1'', role = ''text'', bbox = (10, 10, 100, 30),
       block_text = ''Hello World'', confidence = 1\<rparr>"
  let ?b2 = "\<lparr>block_id = ''ocr1'', role = ''text'', bbox = (- 1, 1, 5, 9),
       block_text = ''tilted'', confidence = 9 / 10\<rparr>"
  note main = bbox_of_emitted_blocks [of "[?d]" "[?b2]" ?e st0 "''doc.pdf''" None "''en''" ?raw True]
  have out: "doc_blocks (fst (process_pdf_to_layout_json ?e st0 ''doc.pdf'' None True ''en'')) =
      [?b1, ?b2]"
    by code_simp
  have h: "\<forall>pdf_doc. fitz_open ?e ''doc.pdf'' = Inr pdf_doc \<longrightarrow>
       (\<forall>pg \<in> set pdf_doc. \<forall>blk \<in> set (get_text_blocks pg). rect_ok blk)"
    by (simp add: test_env_def page_of_def)
  from main [THEN conjunct2, THEN conjunct2, THEN conjunct2, THEN mp, OF h]
  have all: "\<forall>b \<in> set [?b1, ?b2]. bbox_ok b" unfolding out .
  then have c1: "bbox_ok ?b2" and c2: "bbox_ok ?b1" by simp_all
  from c1 c2 out show ?thesis by (intro conjI)
qed

section \<open>The language parameter\<close>

lemma easy_known:
  assumes "easy_ocr st = Some y"
  shows "easy_ready e st l" and "easy_lang st l = y" and "easy_called st l1 = easy_called st l2"
  using assms by (simp_all add: easy_ready_def easy_lang_def easy_called_def)

lemma easy_branch_lang_indep:
  assumes "easy_ocr st \<noteq> None"
  shows "easy_branch e st img l1 = easy_branch e st img l2"
proof -
  from assms obtain y where y: "easy_ocr st = Some y" by auto
  show ?thesis
    using easy_known(3) [OF y, of l1 l2]
    by (cases "readtext e y img") (simp_all add: easy_branch_eq easy_known(1,2) [OF y])
qed

text \<open>What a branch leaves in the two globals.\<close>

lemma easy_called_keeps:
  "paddle_lang (easy_called st l) = paddle_lang st"
  "paddle_ready e (easy_called st l) = paddle_ready e st"
  "easy_ocr st = Some y \<Longrightarrow> easy_ocr (easy_called st l) = Some y"
  by (simp_all add: easy_called_fields easy_lang_def)

lemma paddle_called_keeps:
  "paddle_lang (paddle_called st) = paddle_lang st"
  "paddle_ready e st \<Longrightarrow> paddle_ready e (paddle_called st)"
  "easy_ocr st = Some y \<Longrightarrow> easy_ocr (paddle_called st) = Some y"
  by (simp_all add: paddle_called_fields)

lemma rendered_keeps:
  "paddle_lang (rendered st) = paddle_lang st"
  "paddle_ready e st \<Longrightarrow> paddle_ready e (rendered st)"
  "easy_ocr st = Some y \<Longrightarrow> easy_ocr (rendered st) = Some y"
  by (simp_all add: rendered_fields)

lemma ocr_page_body_keeps:
  "paddle_lang (snd (ocr_page_body e st pg l)) = paddle_lang st"
  "paddle_ready e st \<Longrightarrow> paddle_ready e (snd (ocr_page_body e st pg l))"
  "easy_ocr st = Some y \<Longrightarrow> easy_ocr (snd (ocr_page_body e st pg l)) = Some y"
  using ocr_page_body_states [of e st pg l]
  by (auto simp: easy_called_keeps paddle_called_keeps rendered_keeps)

lemma image_blocks_keeps:
  "easy_ocr st = Some y \<Longrightarrow> easy_ocr (snd (image_blocks e st img l)) = Some y"
  using image_blocks_states [of e st img l]
  by (auto simp: easy_called_keeps paddle_called_keeps)

lemma ocr_page_body_lang_indep:
  assumes "easy_ocr st \<noteq> None"
  shows "ocr_page_body e st pg l1 = ocr_page_body e st pg l2"
proof -
  from assms obtain y where y: "easy_ocr st = Some y" by auto
  have eb: "easy_branch e st' img l1 = easy_branch e st' img l2" if "easy_ocr st' = Some y"
    for st' img using that by (simp add: easy_branch_lang_indep)
  note keep = rendered_keeps(3) [OF y] paddle_called_keeps(3) [OF rendered_keeps(3) [OF y]]
  show ?thesis
  proof (cases "get_pixmap pg")
    case (Inl err)
    then show ?thesis by (simp add: ocr_page_body_eq)
  next
    case pix: (Inr img)
    show ?thesis
    proof (cases "ocr e (paddle_lang st) img")
      case (Inl err)
      with pix show ?thesis by (simp add: ocr_page_body_eq eb keep)
    next
      case (Inr r)
      with pix show ?thesis by (cases "result0 r") (simp_all add: ocr_page_body_eq eb keep)
    qed
  qed
qed

lemma ocr_page_body_paddle_indep:
  assumes "get_pixmap pg = Inr img" and "paddle_detects e st img"
  shows "ocr_page_body e st pg l1 = ocr_page_body e st pg l2"
proof -
  from assms(2) obtain r where r: "PADDLE_AVAILABLE e" "paddle_ready e st"
    "ocr e (paddle_lang st) img = Inr r" "result0 r \<noteq> None"
    by (auto simp: paddle_detects_def split: sum.splits)
  then obtain ds where "result0 r = Some ds" by auto
  with assms(1) r show ?thesis by (simp add: ocr_page_body_eq)
qed

lemma process_page_lang_indep:
  assumes "ocr_page_body e st pg l1 = ocr_page_body e st pg l2"
  shows "process_page e st en l1 n pg = process_page e st en l2 n pg"
proof -
  from assms have "ocr_page e st pg l1 = ocr_page e st pg l2" by (simp add: ocr_page_def)
  then show ?thesis by (simp add: process_page_def page_blocks_def Let_def)
qed

lemma snd_ocr_page: "snd (ocr_page e st pg l) = snd (ocr_page_body e st pg l)"
  by (cases "ocr_page_body e st pg l") (simp add: ocr_page_def split: sum.splits)

lemma snd_process_page:
  "snd (process_page e st en l n pg) =
     (if en \<and> native_blocks (get_text_blocks pg) = [] then snd (ocr_page_body e st pg l) else st)"
  using snd_ocr_page [of e st pg l]
  by (cases "ocr_page e st pg l") (auto simp: process_page_def page_blocks_def Let_def)

lemma process_page_keeps:
  "paddle_lang (snd (process_page e st en l n pg)) = paddle_lang st"
  "paddle_ready e st \<Longrightarrow> paddle_ready e (snd (process_page e st en l n pg))"
  "easy_ocr st = Some y \<Longrightarrow> easy_ocr (snd (process_page e st en l n pg)) = Some y"
  by (simp_all add: snd_process_page ocr_page_body_keeps)

lemma process_pages_keeps_easy:
  "easy_ocr st = Some y \<Longrightarrow> easy_ocr (snd (process_pages e st en l n pgs)) = Some y"
proof (induction pgs arbitrary: st n)
  case Nil
  then show ?case by simp
next
  case (Cons pg pgs)
  obtain q st1 where q: "process_page e st en l n pg = (q, st1)"
    by (cases "process_page e st en l n pg")
  obtain qs st2 where qs: "process_pages e st1 en l (Suc n) pgs = (qs, st2)"
    by (cases "process_pages e st1 en l (Suc n) pgs")
  from process_page_keeps(3) [OF Cons.prems, of e en l n pg] q have "easy_ocr st1 = Some y"
    by simp
  from Cons.IH [OF this, of "Suc n"] q qs show ?case by simp
qed

lemma process_pages_easy_indep:
  "easy_ocr st \<noteq> None \<Longrightarrow> process_pages e st en l1 n pgs = process_pages e st en l2 n pgs"
proof (induction pgs arbitrary: st n)
  case Nil
  show ?case by simp
next
  case (Cons pg pgs)
  from Cons.prems have eq: "process_page e st en l1 n pg = process_page e st en l2 n pg"
    by (intro process_page_lang_indep ocr_page_body_lang_indep)
  obtain q st1 where q: "process_page e st en l2 n pg = (q, st1)"
    by (cases "process_page e st en l2 n pg")
  from Cons.prems obtain y where "easy_ocr st = Some y" by auto
  from process_page_keeps(3) [OF this, of e en l2 n pg] q have "easy_ocr st1 \<noteq> None" by simp
  from Cons.IH [OF this] eq q show ?case by simp
qed

lemma paddle_detects_later:
  "paddle_lang st' = paddle_lang st \<Longrightarrow> (paddle_ready e st \<Longrightarrow> paddle_ready e st') \<Longrightarrow>
     paddle_detects e st img \<Longrightarrow> paddle_detects e st' img"
  by (simp add: paddle_detects_def)

lemma process_pages_paddle_indep:
  "\<forall>pg \<in> set pgs. native_blocks (get_text_blocks pg) \<noteq> [] \<or>
      (\<exists>img. get_pixmap pg = Inr img \<and> paddle_detects e st img) \<Longrightarrow>
   process_pages e st en l1 n pgs = process_pages e st en l2 n pgs"
proof (induction pgs arbitrary: st n)
  case Nil
  show ?case by simp
next
  case (Cons pg pgs)
  from Cons.prems have "native_blocks (get_text_blocks pg) \<noteq> [] \<or>
      (\<exists>img. get_pixmap pg = Inr img \<and> paddle_detects e st img)" by simp
  then have eq: "process_page e st en l1 n pg = process_page e st en l2 n pg"
  proof
    assume "native_blocks (get_text_blocks pg) \<noteq> []"
    then show ?thesis by (simp add: process_page_def page_blocks_def)
  next
    assume "\<exists>img. get_pixmap pg = Inr img \<and> paddle_detects e st img"
    then obtain img where "get_pixmap pg = Inr img" "paddle_detects e st img" by blast
    then have "ocr_page_body e st pg l1 = ocr_page_body e st pg l2"
      by (rule ocr_page_body_paddle_indep)
    then show ?thesis by (rule process_page_lang_indep)
  qed
  obtain q st1 where q: "process_page e st en l2 n pg = (q, st1)"
    by (cases "process_page e st en l2 n pg")
  from process_page_keeps(1,2) [of e st en l2 n pg] q
  have "paddle_lang st1 = paddle_lang st" and "paddle_ready e st \<Longrightarrow> paddle_ready e st1"
    by simp_all
  then have "paddle_detects e st img \<Longrightarrow> paddle_detects e st1 img" for img
    by (rule paddle_detects_later)
  with Cons.prems have "\<forall>pg \<in> set pgs. native_blocks (get_text_blocks pg) \<noteq> [] \<or>
      (\<exists>img. get_pixmap pg = Inr img \<and> paddle_detects e st1 img)" by auto
  from Cons.IH [OF this] eq q show ?case by simp
qed

lemma image_blocks_easy_indep:
  assumes "easy_ocr st \<noteq> None"
  shows "image_blocks e st img l1 = image_blocks e st img l2"
proof (cases "image_paddle e st img")
  case (Pair r st1)
  from assms obtain y where "easy_ocr st = Some y" by auto
  with image_paddle_state [of e st img] Pair have e1: "easy_ocr st1 \<noteq> None"
    by (auto simp: paddle_called_fields)
  show ?thesis
  proof (cases r)
    case (Inl err)
    with Pair show ?thesis by (simp add: image_blocks_def)
  next
    case (Inr bs)
    with Pair easy_branch_lang_indep [OF e1, of e img l1 l2] show ?thesis
      by (simp add: image_blocks_def image_easy_eq)
  qed
qed

lemma image_blocks_paddle_indep:
  assumes "paddle_detects e st img"
  shows "image_blocks e st img l1 = image_blocks e st img l2"
proof -
  from assms obtain r where r: "PADDLE_AVAILABLE e" "paddle_ready e st"
    "ocr e (paddle_lang st) img = Inr r" "result0 r \<noteq> None"
    by (auto simp: paddle_detects_def split: sum.splits)
  then obtain d ds where ds: "result0 r = Some (d # ds)" by (auto elim: result0.elims)
  with r have p: "image_paddle e st img = (ocr_blocks (d # ds), paddle_called st)"
    by (simp add: image_paddle_eq)
  show ?thesis
  proof (cases "ocr_blocks (d # ds)")
    case (Inl err)
    with p show ?thesis by (simp add: image_blocks_def)
  next
    case (Inr bs)
    then have "ocr_blocks_from 0 (d # ds) = Inr bs" by (simp add: ocr_blocks_def)
    from ocr_blocks_from_Inr [OF this] have "bs \<noteq> []" by auto
    with p Inr show ?thesis by (simp add: image_blocks_def image_easy_eq)
  qed
qed

lemma snd_process_image:
  "snd (process_image_to_layout_json e st path did l) =
     (case imread e path of None \<Rightarrow> st | Some img \<Rightarrow> snd (image_blocks e st img l))"
  by (cases "imread e path"; cases "image_blocks e st (the (imread e path)) l")
    (auto simp: process_image_to_layout_json_def split: sum.splits)

lemma snd_process_pdf:
  "snd (process_pdf_to_layout_json e st path did en l) =
     (if PYMUPDF_AVAILABLE e
      then (case fitz_open e path of
              Inl err \<Rightarrow> st
            | Inr pdf_doc \<Rightarrow> snd (process_pages e st en l 0 pdf_doc))
      else st)"
  by (cases "fitz_open e path"; cases "process_pages e st en l 0 (projr (fitz_open e path))")
    (auto simp: process_pdf_to_layout_json_def)

text \<open>
  C9. \<open>_get_paddle_ocr\<close> takes no language from the caller and constructs PaddleOCR
  with \<open>en\<close>. Two calls that differ only in \<open>ocr_lang\<close> give the same result and leave
  the same module state whenever PaddleOCR is available and returns at least one
  detection: for an image, and for a PDF on every page that has no native text. The same
  holds, whatever PaddleOCR does, once the EasyOCR instance exists, and no call replaces
  an instance that exists. \<open>ocr_lang\<close> only reaches the constructor of EasyOCR, which is
  called when there is no instance yet; when the constructor raises there is still none.
\<close>

theorem ocr_lang_only_reaches_first_easyocr_construction:
  "(PADDLE_AVAILABLE e \<and> paddle_ocr st = None \<longrightarrow>
      get_paddle_ocr e st =
        (case new_PaddleOCR e ''en'' of
           Some err \<Rightarrow> (Inl err, st)
         | None \<Rightarrow> (Inr (Some ''en''), st\<lparr>paddle_ocr := Some ''en''\<rparr>))) \<and>
   (imread e path = Some img \<and> paddle_detects e st img \<longrightarrow>
      process_image_to_layout_json e st path did l1 =
      process_image_to_layout_json e st path did l2) \<and>
   ((\<forall>pdf_doc. fitz_open e path = Inr pdf_doc \<longrightarrow>
       (\<forall>pg \<in> set pdf_doc. native_blocks (get_text_blocks pg) \<noteq> [] \<or>
          (\<exists>img. get_pixmap pg = Inr img \<and> paddle_detects e st img))) \<longrightarrow>
      process_pdf_to_layout_json e st path did en l1 =
      process_pdf_to_layout_json e st path did en l2) \<and>
   (easy_ocr st \<noteq> None \<longrightarrow>
      process_image_to_layout_json e st path did l1 =
      process_image_to_layout_json e st path did l2 \<and>
      process_pdf_to_layout_json e st path did en l1 =
      process_pdf_to_layout_json e st path did en l2) \<and>
   (easy_ocr st = Some y \<longrightarrow>
      easy_ocr (snd (process_image_to_layout_json e st path did l1)) = Some y \<and>
      easy_ocr (snd (process_pdf_to_layout_json e st path did en l1)) = Some y) \<and>
   (EASYOCR_AVAILABLE e \<and> easy_ocr st = None \<longrightarrow>
      get_easy_ocr e st l1 =
        (case new_Reader e l1 of
           Some err \<Rightarrow> (Inl err, st)
         | None \<Rightarrow> (Inr (Some l1), st\<lparr>easy_ocr := Some l1\<rparr>)))"
proof (intro conjI impI)
  assume "PADDLE_AVAILABLE e \<and> paddle_ocr st = None"
  then show "get_paddle_ocr e st =
        (case new_PaddleOCR e ''en'' of
           Some err \<Rightarrow> (Inl err, st)
         | None \<Rightarrow> (Inr (Some ''en''), st\<lparr>paddle_ocr := Some ''en''\<rparr>))"
    by (simp add: get_paddle_ocr_def)
next
  assume "imread e path = Some img \<and> paddle_detects e st img"
  then have "imread e path = Some img"
    and "image_blocks e st img l1 = image_blocks e st img l2"
    by (simp_all add: image_blocks_paddle_indep)
  then show "process_image_to_layout_json e st path did l1 =
      process_image_to_layout_json e st path did l2"
    by (simp add: process_image_to_layout_json_def)
next
  assume a: "\<forall>pdf_doc. fitz_open e path = Inr pdf_doc \<longrightarrow>
       (\<forall>pg \<in> set pdf_doc. native_blocks (get_text_blocks pg) \<noteq> [] \<or>
          (\<exists>img. get_pixmap pg = Inr img \<and> paddle_detects e st img))"
  show "process_pdf_to_layout_json e st path did en l1 =
      process_pdf_to_layout_json e st path did en l2"
  proof (cases "fitz_open e path")
    case (Inl err)
    then show ?thesis by (simp add: process_pdf_to_layout_json_def)
  next
    case (Inr pdf_doc)
    with a have "\<forall>pg \<in> set pdf_doc. native_blocks (get_text_blocks pg) \<noteq> [] \<or>
          (\<exists>img. get_pixmap pg = Inr img \<and> paddle_detects e st img)" by simp
    then have "process_pages e st en l1 0 pdf_doc = process_pages e st en l2 0 pdf_doc"
      by (rule process_pages_paddle_indep)
    with Inr show ?thesis by (simp add: process_pdf_to_layout_json_def)
  qed
next
  assume a: "easy_ocr st \<noteq> None"
  show "process_image_to_layout_json e st path did l1 =
      process_image_to_layout_json e st path did l2"
  proof (cases "imread e path")
    case None
    then show ?thesis by (simp add: process_image_to_layout_json_def)
  next
    case (Some im)
    from a have "image_blocks e st im l1 = image_blocks e st im l2"
      by (rule image_blocks_easy_indep)
    with Some show ?thesis by (simp add: process_image_to_layout_json_def)
  qed
  show "process_pdf_to_layout_json e st path did en l1 =
      process_pdf_to_layout_json e st path did en l2"
  proof (cases "fitz_open e path")
    case (Inl err)
    then show ?thesis by (simp add: process_pdf_to_layout_json_def)
  next
    case (Inr pdf_doc)
    from a have "process_pages e st en l1 0 pdf_doc = process_pages e st en l2 0 pdf_doc"
      by (rule process_pages_easy_indep)
    with Inr show ?thesis by (simp add: process_pdf_to_layout_json_def)
  qed
next
  assume y: "easy_ocr st = Some y"
  show "easy_ocr (snd (process_image_to_layout_json e st path did l1)) = Some y"
    by (cases "imread e path") (simp_all add: snd_process_image y image_blocks_keeps)
  show "easy_ocr (snd (process_pdf_to_layout_json e st path did en l1)) = Some y"
    by (cases "fitz_open e path") (simp_all add: snd_process_pdf y process_pages_keeps_easy)
next
  assume "EASYOCR_AVAILABLE e \<and> easy_ocr st = None"
  then show "get_easy_ocr e st l1 =
        (case new_Reader e l1 of
           Some err \<Rightarrow> (Inl err, st)
         | None \<Rightarrow> (Inr (Some l1), st\<lparr>easy_ocr := Some l1\<rparr>))"
    by (simp add: get_easy_ocr_def)
qed

theorem ocr_lang_only_reaches_first_easyocr_construction_witness:
  "get_paddle_ocr env_paddle_reads st0 = (Inr (Some ''en''), st0\<lparr>paddle_ocr := Some ''en''\<rparr>) \<and>
   process_image_to_layout_json env_paddle_reads st0 ''scan.png'' None ''de'' =
   process_image_to_layout_json env_paddle_reads st0 ''scan.png'' None ''en'' \<and>
   process_pdf_to_layout_json env_paddle_reads st0 ''doc.pdf'' None True ''de'' =
   process_pdf_to_layout_json env_paddle_reads st0 ''doc.pdf'' None True ''en'' \<and>
   process_image_to_layout_json env_easy_strict (st0\<lparr>easy_ocr := Some ''fr''\<rparr>) ''scan.png''
     None ''xx'' =
   process_image_to_layout_json env_easy_strict (st0\<lparr>easy_ocr := Some ''fr''\<rparr>) ''scan.png''
     None ''en'' \<and>
   process_pdf_to_layout_json env_easy_strict (st0\<lparr>easy_ocr := Some ''fr''\<rparr>) ''doc.pdf''
     None True ''xx'' =
   process_pdf_to_layout_json env_easy_strict (st0\<lparr>easy_ocr := Some ''fr''\<rparr>) ''doc.pdf''
     None True ''en'' \<and>
   easy_ocr (snd (process_image_to_layout_json env_easy_strict (st0\<lparr>easy_ocr := Some ''fr''\<rparr>)
     ''scan.png'' None ''xx'')) = Some ''fr'' \<and>
   easy_ocr (snd (process_pdf_to_layout_json env_easy_strict (st0\<lparr>easy_ocr := Some ''fr''\<rparr>)
     ''doc.pdf'' None True ''xx'')) = Some ''fr'' \<and>
   get_easy_ocr env_easy_strict st0 ''xx'' = (Inl (LibraryError ''unsupported language''), st0) \<and>
   get_easy_ocr env_easy_strict st0 ''en'' = (Inr (Some ''en''), st0\<lparr>easy_ocr := Some ''en''\<rparr>)"
proof -
  let ?st = "st0\<lparr>easy_ocr := Some ''fr''\<rparr>"
  note main = ocr_lang_only_reaches_first_easyocr_construction
  note defs = env_paddle_reads_def env_easy_strict_def test_env_def page_of_def st0_def
    paddle_detects_def paddle_ready_def paddle_lang_def
  have pd: "paddle_detects env_paddle_reads st0 img0" by (simp add: defs)
  have h1: "PADDLE_AVAILABLE env_paddle_reads \<and> paddle_ocr st0 = None" by (simp add: defs)
  have h2: "imread env_paddle_reads ''scan.png'' = Some img0 \<and>
      paddle_detects env_paddle_reads st0 img0"
    using pd by (simp add: defs)
  have h3: "\<forall>pdf_doc. fitz_open env_paddle_reads ''doc.pdf'' = Inr pdf_doc \<longrightarrow>
       (\<forall>pg \<in> set pdf_doc. native_blocks (get_text_blocks pg) \<noteq> [] \<or>
          (\<exists>img. get_pixmap pg = Inr img \<and> paddle_detects env_paddle_reads st0 img))"
    using pd by (simp add: env_paddle_reads_def test_env_def page_of_def)
  have h4: "easy_ocr ?st \<noteq> None" by simp
  have h5: "easy_ocr ?st = Some ''fr''" by simp
  have h6: "EASYOCR_AVAILABLE env_easy_strict \<and> easy_ocr st0 = None" by (simp add: defs)
  have n1: "new_PaddleOCR env_paddle_reads ''en'' = None" by (simp add: defs)
  have n2: "new_Reader env_easy_strict ''xx'' = Some (LibraryError ''unsupported language'')"
    by (simp add: defs)
  have n3: "new_Reader env_easy_strict ''en'' = None" by (simp add: defs)
  from main [where e = env_paddle_reads and st = st0, THEN conjunct1, THEN mp, OF h1]
  have c1: "get_paddle_ocr env_paddle_reads st0 =
      (Inr (Some ''en''), st0\<lparr>paddle_ocr := Some ''en''\<rparr>)"
    by (simp add: n1)
  from main [where e = env_paddle_reads and st = st0 and path = "''scan.png''" and did = None
      and ?l1.0 = "''de''" and ?l2.0 = "''en''", THEN conjunct2, THEN conjunct1, THEN mp, OF h2]
  have c2: "process_image_to_layout_json env_paddle_reads st0 ''scan.png'' None ''de'' =
      process_image_to_layout_json env_paddle_reads st0 ''scan.png'' None ''en''" .
  from main [where e = env_paddle_reads and st = st0 and path = "''doc.pdf''" and did = None
      and ?l1.0 = "''de''" and ?l2.0 = "''en''" and en = True,
      THEN conjunct2, THEN conjunct2, THEN conjunct1, THEN mp, OF h3]
  have c3: "process_pdf_to_layout_json env_paddle_reads st0 ''doc.pdf'' None True ''de'' =
      process_pdf_to_layout_json env_paddle_reads st0 ''doc.pdf'' None True ''en''" .
  from main [where e = env_easy_strict and st = ?st and did = None and path = "''scan.png''"
      and ?l1.0 = "''xx''" and ?l2.0 = "''en''" and en = True,
      THEN conjunct2, THEN conjunct2, THEN conjunct2, THEN conjunct1, THEN mp, OF h4,
      THEN conjunct1]
  have c4: "process_image_to_layout_json env_easy_strict ?st ''scan.png'' None ''xx'' =
      process_image_to_layout_json env_easy_strict ?st ''scan.png'' None ''en''" .
  from main [where e = env_easy_strict and st = ?st and did = None and path = "''doc.pdf''"
      and ?l1.0 = "''xx''" and ?l2.0 = "''en''" and en = True,
      THEN conjunct2, THEN conjunct2, THEN conjunct2, THEN conjunct1, THEN mp, OF h4,
      THEN conjunct2]
  have c5: "process_pdf_to_layout_json env_easy_strict ?st ''doc.pdf'' None True ''xx'' =
      process_pdf_to_layout_json env_easy_strict ?st ''doc.pdf'' None True ''en''" .
  from main [where e = env_easy_strict and st = ?st and did = None and path = "''scan.png''"
      and ?l1.0 = "''xx''" and ?l2.0 = "''en''" and en = True,
      THEN conjunct2, THEN conjunct2, THEN conjunct2, THEN conjunct2, THEN conjunct1,
      THEN mp, OF h5, THEN conjunct1]
  have c6: "easy_ocr (snd (process_image_to_layout_json env_easy_strict ?st ''scan.png'' None
      ''xx'')) = Some ''fr''" .
  from main [where e = env_easy_strict and st = ?st and did = None and path = "''doc.pdf''"
      and ?l1.0 = "''xx''" and ?l2.0 = "''en''" and en = True,
      THEN conjunct2, THEN conjunct2, THEN conjunct2, THEN conjunct2, THEN conjunct1,
      THEN mp, OF h5, THEN conjunct2]
  have c7: "easy_ocr (snd (process_pdf_to_layout_json env_easy_strict ?st ''doc.pdf'' None True
      ''xx'')) = Some ''fr''" .
  from main [where e = env_easy_strict and st = st0 and ?l1.0 = "''xx''",
      THEN conjunct2, THEN conjunct2, THEN conjunct2, THEN conjunct2, THEN conjunct2, THEN mp,
      OF h6]
  have c8: "get_easy_ocr env_easy_strict st0 ''xx'' =
      (Inl (LibraryError ''unsupported language''), st0)"
    by (simp add: n2)
  from main [where e = env_easy_strict and st = st0 and ?l1.0 = "''en''",
      THEN conjunct2, THEN conjunct2, THEN conjunct2, THEN conjunct2, THEN conjunct2, THEN mp,
      OF h6]
  have c9: "get_easy_ocr env_easy_strict st0 ''en'' =
      (Inr (Some ''en''), st0\<lparr>easy_ocr := Some ''en''\<rparr>)"
    by (simp add: n3)
  from c1 c2 c3 c4 c5 c6 c7 c8 c9 show ?thesis by (intro conjI)
qed


end
